theory Spec2Isabelle
  imports Complex_Main "HOL-Library.Sublist"
begin

section \<open>The event store (streaming/publisher.py, JobEventBuffer)\<close>

text \<open>
  Redis is the store the publisher writes and the subscriber reads. The model keeps the
  two key families the code uses: lists (the event buffers) and plain string values (the
  done markers), the time-to-live every write sets, and the log of every command the
  producer side has issued, in issue order. Time does not pass in the model, so a key
  never expires; the time-to-live is only recorded. Redis commands are taken to succeed
  (a connection failure is not a branch of this code).
\<close>

datatype redis_cmd =
    RPUSH string string
  | EXPIRE string nat
  | LLEN string
  | LRANGE string int int
  | SET_EX string string nat
  | EXISTS string
  | PUBLISH string string
  | SUBSCRIBE string
  | UNSUBSCRIBE string
  | GET_MESSAGE
  | PUBSUB_CLOSE

record redis =
  lists :: "string \<Rightarrow> string list"
  strs :: "string \<Rightarrow> string option"
  expiry :: "string \<Rightarrow> nat option"
  cmd_log :: "redis_cmd list"

definition empty_redis :: redis where
  "empty_redis = \<lparr>lists = (\<lambda>k. []), strs = (\<lambda>k. None), expiry = (\<lambda>k. None), cmd_log = []\<rparr>"

text \<open>A key exists when it holds a string or a non-empty list (Redis drops empty lists).\<close>

definition key_exists :: "redis \<Rightarrow> string \<Rightarrow> bool" where
  "key_exists r k = (if strs r k = None then lists r k \<noteq> [] else True)"

text \<open>
  The effect of one command on the data. SET replaces whatever the key held; RPUSH
  appends; EXPIRE sets the time-to-live of an existing key; the reading commands, the
  pub/sub commands and PUBLISH leave the data as it is.
\<close>

fun apply_cmd :: "redis_cmd \<Rightarrow> redis \<Rightarrow> redis" where
  "apply_cmd (RPUSH k v) r = r\<lparr>lists := (lists r)(k := lists r k @ [v])\<rparr>"
| "apply_cmd (EXPIRE k t) r =
     (if key_exists r k then r\<lparr>expiry := (expiry r)(k := Some t)\<rparr> else r)"
| "apply_cmd (SET_EX k v t) r =
     r\<lparr>lists := (lists r)(k := []), strs := (strs r)(k := Some v),
       expiry := (expiry r)(k := Some t)\<rparr>"
| "apply_cmd c r = r"

definition exec :: "redis_cmd \<Rightarrow> redis \<Rightarrow> redis" where
  "exec c r = (apply_cmd c r)\<lparr>cmd_log := cmd_log r @ [c]\<rparr>"

text \<open>LRANGE with Redis's index rules: a negative index counts from the end.\<close>

definition lrange :: "string list \<Rightarrow> int \<Rightarrow> int \<Rightarrow> string list" where
  "lrange xs a b =
     (let n = int (length xs);
          a' = (if a < 0 then max 0 (n + a) else a);
          b' = (if b < 0 then n + b else min b (n - 1))
      in if a' > b' \<or> a' \<ge> n then [] else take (nat (b' - a' + 1)) (drop (nat a') xs))"

definition EVENT_TTL_SECONDS :: nat where
  "EVENT_TTL_SECONDS = 600"

definition get_event_key :: "string \<Rightarrow> string" where
  "get_event_key job_id = ''job:events:'' @ job_id"

definition get_done_key :: "string \<Rightarrow> string" where
  "get_done_key job_id = ''job:done:'' @ job_id"

definition get_channel_name :: "string \<Rightarrow> string" where
  "get_channel_name job_id = ''chat:stream:'' @ job_id"

text \<open>append_event: rpush, expire, and the llen of the debug line (its f-string is built
  whatever the log level).\<close>

definition append_event :: "string \<Rightarrow> string \<Rightarrow> redis \<Rightarrow> redis" where
  "append_event job_id event_json r =
     (let key = get_event_key job_id
      in exec (LLEN key) (exec (EXPIRE key EVENT_TTL_SECONDS) (exec (RPUSH key event_json) r)))"

definition mark_done :: "string \<Rightarrow> redis \<Rightarrow> redis" where
  "mark_done job_id r = exec (SET_EX (get_done_key job_id) ''1'' EVENT_TTL_SECONDS) r"

definition is_done :: "redis \<Rightarrow> string \<Rightarrow> bool" where
  "is_done r job_id = key_exists r (get_done_key job_id)"

definition get_all_events :: "redis \<Rightarrow> string \<Rightarrow> string list" where
  "get_all_events r job_id = lrange (lists r (get_event_key job_id)) 0 (- 1)"

definition get_events_from :: "redis \<Rightarrow> string \<Rightarrow> nat \<Rightarrow> string list" where
  "get_events_from r job_id start_index =
     lrange (lists r (get_event_key job_id)) (int start_index) (- 1)"

definition get_event_count :: "redis \<Rightarrow> string \<Rightarrow> nat" where
  "get_event_count r job_id = length (lists r (get_event_key job_id))"

section \<open>Events (models/schemas.py)\<close>

datatype tool_type = SEARCH_DOCUMENTS | READ_PDF | ANALYZE_CONTENT

record citation =
  cit_id :: int
  document_name :: string
  cit_page_number :: int
  text_snippet :: string
  start_char :: "int option"
  end_char :: "int option"

datatype ui_block =
    InfoCard string string "string option"
  | Table "string list" "string list list" "string option"
  | Chart string "string list" "real list" "string option"

datatype stream_event =
    TextChunkEvent string
  | ToolCallStartEvent tool_type string string
  | ToolCallEndEvent tool_type string bool "string option"
  | CitationEvent citation
  | UIBlockEvent ui_block
  | ErrorEvent string bool
  | DoneEvent "int option"

text \<open>The test \<open>event.event == EventType.DONE\<close>.\<close>

fun is_done_event :: "stream_event \<Rightarrow> bool" where
  "is_done_event (DoneEvent t) = True"
| "is_done_event e = False"

section \<open>The publisher (streaming/publisher.py, StreamPublisher)\<close>

text \<open>
  \<open>serialize\<close> stands for \<open>_serialize_event\<close>, that is \<open>json.dumps(event.model_dump())\<close>:
  both are library code, so the function is a parameter.
\<close>

definition publish_event ::
  "(stream_event \<Rightarrow> string) \<Rightarrow> string \<Rightarrow> stream_event \<Rightarrow> redis \<Rightarrow> redis" where
  "publish_event serialize job_id event r =
     (let channel = get_channel_name job_id;
          message = serialize event;
          r1 = append_event job_id message r;
          r2 = exec (PUBLISH channel message) r1
      in if is_done_event event then mark_done job_id r2 else r2)"

definition publish_error ::
  "(stream_event \<Rightarrow> string) \<Rightarrow> string \<Rightarrow> string \<Rightarrow> bool \<Rightarrow> redis \<Rightarrow> redis" where
  "publish_error serialize job_id msg recoverable r =
     publish_event serialize job_id (ErrorEvent msg recoverable) r"

definition publish_done ::
  "(stream_event \<Rightarrow> string) \<Rightarrow> string \<Rightarrow> int option \<Rightarrow> redis \<Rightarrow> redis" where
  "publish_done serialize job_id total_tokens r =
     publish_event serialize job_id (DoneEvent total_tokens) r"

section \<open>The subscriber (streaming/publisher.py, StreamSubscriber.stream_events)\<close>

text \<open>
  What \<open>json.loads\<close> returns. The decoder itself is library code and a parameter
  \<open>loads\<close> of the functions below; \<open>None\<close> is its JSONDecodeError. Floats are left
  out of the values: nothing here reads a number.
\<close>

datatype json =
    JNull
  | JBool bool
  | JNum int
  | JStr string
  | JList "json list"
  | JDict "(string \<times> json) list"

text \<open>An exception, with the text \<open>str(e)\<close> gives.\<close>

datatype py_exception = AttributeError string

fun type_name :: "json \<Rightarrow> string" where
  "type_name JNull = ''NoneType''"
| "type_name (JBool b) = ''bool''"
| "type_name (JNum n) = ''int''"
| "type_name (JStr s) = ''str''"
| "type_name (JList xs) = ''list''"
| "type_name (JDict kvs) = ''dict''"

fun exception_str :: "py_exception \<Rightarrow> string" where
  "exception_str (AttributeError m) = m"

text \<open>\<open>d.get(k, default)\<close>: only a dict has the method.\<close>

fun dict_get :: "json \<Rightarrow> string \<Rightarrow> json \<Rightarrow> py_exception + json" where
  "dict_get (JDict kvs) k dflt = Inr (case map_of kvs k of None \<Rightarrow> dflt | Some v \<Rightarrow> v)"
| "dict_get j k dflt =
     Inl (AttributeError ([CHR 0x27] @ type_name j @ [CHR 0x27] @ '' object has no attribute ''
            @ [CHR 0x27] @ ''get'' @ [CHR 0x27]))"

text \<open>
  What \<open>pubsub.get_message(timeout=1.0)\<close> returns: nothing, a message of type
  \<open>message\<close> with its payload, or a message of another type (the subscribe
  confirmation).
\<close>

datatype pubsub_message = Message string | Control string

text \<open>
  One iteration of the live loop reads the clock, the channel, and the store up to three
  times. The producer runs concurrently, so each read of the store may see a different
  state: a tick holds the clock reading, the channel's answer, and the store as seen by
  the done check, by the count and by the fetch of that iteration.
\<close>

record tick =
  now :: real
  message :: "pubsub_message option"
  at_done :: redis
  at_count :: redis
  at_fetch :: redis

text \<open>How a loop body was left: it ran to the end of its list, returned, or raised.\<close>

datatype flow = Next | Stop | Throw py_exception

datatype exit_status = Waiting | Returned | Raised py_exception

record stream_result =
  yielded :: "json list"
  issued :: "redis_cmd list"
  status :: exit_status

definition timeout_event :: json where
  "timeout_event = JDict [(''event'', JStr ''error''), (''message'', JStr ''Stream timeout'')]"

text \<open>The loop of lines 224-228 and 307-311: yield what decodes, skip what does not.\<close>

fun replay_all :: "(string \<Rightarrow> json option) \<Rightarrow> string list \<Rightarrow> json list" where
  "replay_all loads [] = []"
| "replay_all loads (e # es) =
     (case loads e of None \<Rightarrow> replay_all loads es | Some v \<Rightarrow> v # replay_all loads es)"

text \<open>
  Phase 1, lines 244-256. The debug line reads \<open>event_data.get('event')\<close> before the
  yield, so a decoded value that is not a dict raises there.
\<close>

fun replay_buffered ::
  "(string \<Rightarrow> json option) \<Rightarrow> string list \<Rightarrow> nat \<Rightarrow> json list \<times> nat \<times> flow" where
  "replay_buffered loads [] sent_count = ([], sent_count, Next)"
| "replay_buffered loads (e # es) sent_count =
     (case loads e of
        None \<Rightarrow> replay_buffered loads es (sent_count + 1)
      | Some event_data \<Rightarrow>
          (case dict_get event_data ''event'' JNull of
             Inl x \<Rightarrow> ([], sent_count, Throw x)
           | Inr ty \<Rightarrow>
               if ty = JStr ''done'' then ([event_data], sent_count + 1, Stop)
               else (case replay_buffered loads es (sent_count + 1) of
                       (ys, n, f) \<Rightarrow> (event_data # ys, n, f))))"

text \<open>The inner loop of the live phase, lines 285-296: the yield comes first.\<close>

fun yield_new ::
  "(string \<Rightarrow> json option) \<Rightarrow> string list \<Rightarrow> nat \<Rightarrow> json list \<times> nat \<times> flow" where
  "yield_new loads [] sent_count = ([], sent_count, Next)"
| "yield_new loads (e # es) sent_count =
     (case loads e of
        None \<Rightarrow> yield_new loads es (sent_count + 1)
      | Some ev \<Rightarrow>
          (case dict_get ev ''event'' JNull of
             Inl x \<Rightarrow> ([ev], sent_count + 1, Throw x)
           | Inr ty \<Rightarrow>
               if ty = JStr ''done'' then ([ev], sent_count + 1, Stop)
               else (case yield_new loads es (sent_count + 1) of
                       (ys, n, f) \<Rightarrow> (ev # ys, n, f))))"

definition max_wait_seconds :: real where
  "max_wait_seconds = 300"

text \<open>Puts what an iteration yielded and issued in front of the rest of the run.\<close>

definition after_tick ::
  "json list \<Rightarrow> redis_cmd list \<Rightarrow> json list \<times> redis_cmd list \<times> exit_status
     \<Rightarrow> json list \<times> redis_cmd list \<times> exit_status" where
  "after_tick ys cs rest = (case rest of (ys', cs', st) \<Rightarrow> (ys @ ys', cs @ cs', st))"

text \<open>
  Phase 2, the \<open>while True\<close> of lines 261-317, run over the ticks the environment
  supplies, one per iteration. When the ticks are used up the generator is still
  waiting inside the loop (\<open>Waiting\<close>).
\<close>

fun live_loop ::
  "(string \<Rightarrow> json option) \<Rightarrow> string \<Rightarrow> real \<Rightarrow> tick list \<Rightarrow> nat
     \<Rightarrow> json list \<times> redis_cmd list \<times> exit_status" where
  "live_loop loads job_id start_time [] sent_count = ([], [], Waiting)"
| "live_loop loads job_id start_time (t # ts) sent_count =
     (if now t - start_time > max_wait_seconds then ([timeout_event], [], Returned)
      else
        (case message t of
           Some (Message payload) \<Rightarrow>
             (case loads payload of
                None \<Rightarrow>
                  after_tick [] [GET_MESSAGE] (live_loop loads job_id start_time ts sent_count)
              | Some event_data \<Rightarrow>
                  (case dict_get event_data ''event'' (JStr ''unknown'') of
                     Inl x \<Rightarrow> ([], [GET_MESSAGE], Raised x)
                   | Inr event_type \<Rightarrow>
                       if get_event_count (at_count t) job_id > sent_count then
                         (case yield_new loads
                                 (get_events_from (at_fetch t) job_id sent_count) sent_count of
                            (ys, n, Next) \<Rightarrow>
                              after_tick ys
                                [GET_MESSAGE, LLEN (get_event_key job_id),
                                 LRANGE (get_event_key job_id) (int sent_count) (- 1)]
                                (live_loop loads job_id start_time ts n)
                          | (ys, n, Stop) \<Rightarrow>
                              (ys, [GET_MESSAGE, LLEN (get_event_key job_id),
                                    LRANGE (get_event_key job_id) (int sent_count) (- 1)],
                               Returned)
                          | (ys, n, Throw x) \<Rightarrow>
                              (ys, [GET_MESSAGE, LLEN (get_event_key job_id),
                                    LRANGE (get_event_key job_id) (int sent_count) (- 1)],
                               Raised x))
                       else
                         after_tick [] [GET_MESSAGE, LLEN (get_event_key job_id)]
                           (live_loop loads job_id start_time ts sent_count)))
         | other \<Rightarrow>
             if is_done (at_done t) job_id then
               (if get_event_count (at_count t) job_id > sent_count then
                  (replay_all loads (get_events_from (at_fetch t) job_id sent_count),
                   [GET_MESSAGE, EXISTS (get_done_key job_id), LLEN (get_event_key job_id),
                    LRANGE (get_event_key job_id) (int sent_count) (- 1)],
                   Returned)
                else
                  ([], [GET_MESSAGE, EXISTS (get_done_key job_id),
                        LLEN (get_event_key job_id)], Returned))
             else
               after_tick [] [GET_MESSAGE, EXISTS (get_done_key job_id)]
                 (live_loop loads job_id start_time ts sent_count)))"

text \<open>
  What a run of the generator sees of the world: the store at the done check of line
  222, the store when the buffer is read for the replay, the clock reading of line 237,
  and the ticks of the live loop.
\<close>

record stream_env =
  at_attach :: redis
  at_replay :: redis
  start_time :: real
  ticks :: "tick list"

text \<open>The \<open>finally\<close> of lines 319-321 runs when the generator returns or raises.\<close>

definition finally_cmds :: "string \<Rightarrow> exit_status \<Rightarrow> redis_cmd list" where
  "finally_cmds job_id st =
     (if st = Waiting then [] else [UNSUBSCRIBE (get_channel_name job_id), PUBSUB_CLOSE])"

definition stream_events ::
  "(string \<Rightarrow> json option) \<Rightarrow> string \<Rightarrow> stream_env \<Rightarrow> stream_result" where
  "stream_events loads job_id env =
     (if is_done (at_attach env) job_id then
        \<lparr>yielded = replay_all loads (get_all_events (at_replay env) job_id),
         issued = [EXISTS (get_done_key job_id), LRANGE (get_event_key job_id) 0 (- 1)],
         status = Returned\<rparr>
      else
        (let head_cmds = [EXISTS (get_done_key job_id), SUBSCRIBE (get_channel_name job_id),
                          LRANGE (get_event_key job_id) 0 (- 1)]
         in case replay_buffered loads (get_all_events (at_replay env) job_id) 0 of
              (ys, n, Stop) \<Rightarrow>
                \<lparr>yielded = ys, issued = head_cmds @ finally_cmds job_id Returned,
                 status = Returned\<rparr>
            | (ys, n, Throw x) \<Rightarrow>
                \<lparr>yielded = ys, issued = head_cmds @ finally_cmds job_id (Raised x),
                 status = Raised x\<rparr>
            | (ys, n, Next) \<Rightarrow>
                (case live_loop loads job_id (start_time env) (ticks env) n of
                   (ys', cs, st) \<Rightarrow>
                     \<lparr>yielded = ys @ ys', issued = head_cmds @ cs @ finally_cmds job_id st,
                      status = st\<rparr>)))"

section \<open>The streaming endpoint (api/chat.py, stream_chat_response.event_generator)\<close>

record sse =
  sse_event :: json
  sse_data :: string

text \<open>
  What the endpoint reads each time it takes an event from the subscriber:
  \<open>request.is_disconnected()\<close> and the event loop's clock.
\<close>

record client_probe =
  disconnected :: bool
  loop_time :: real

definition timeout_seconds :: real where
  "timeout_seconds = 300"

definition error_payload :: "string \<Rightarrow> json" where
  "error_payload msg =
     JDict [(''event'', JStr ''error''), (''message'', JStr msg), (''recoverable'', JBool False)]"

definition error_sse :: "(json \<Rightarrow> string) \<Rightarrow> string \<Rightarrow> sse" where
  "error_sse dumps msg = \<lparr>sse_event = JStr ''error'', sse_data = dumps (error_payload msg)\<rparr>"

text \<open>
  The body of the \<open>for\<close> loop of lines 102-130, over the events the subscriber yields;
  \<open>i\<close> counts the events taken so far. \<open>dumps\<close> is \<open>json.dumps\<close>.
\<close>

fun forward_events ::
  "(json \<Rightarrow> string) \<Rightarrow> real \<Rightarrow> (nat \<Rightarrow> client_probe) \<Rightarrow> nat \<Rightarrow> json list
     \<Rightarrow> sse list \<times> flow" where
  "forward_events dumps api_start probe i [] = ([], Next)"
| "forward_events dumps api_start probe i (event_data # rest) =
     (if disconnected (probe i) then ([], Stop)
      else if loop_time (probe i) - api_start > timeout_seconds then
        ([error_sse dumps ''Stream timeout''], Stop)
      else
        (case dict_get event_data ''event'' (JStr ''message'') of
           Inl x \<Rightarrow> ([], Throw x)
         | Inr event_type \<Rightarrow>
             if event_type = JStr ''done'' then
               ([\<lparr>sse_event = event_type, sse_data = dumps event_data\<rparr>], Stop)
             else
               (case forward_events dumps api_start probe (i + 1) rest of
                  (out, f) \<Rightarrow>
                    (\<lparr>sse_event = event_type, sse_data = dumps event_data\<rparr> # out, f))))"

record api_result =
  sse_sent :: "sse list"
  finished :: bool

text \<open>
  The generator: the loop, and the \<open>except Exception\<close> that turns an exception of the
  loop body or of the subscriber into one more error event. While the subscriber is
  still waiting and every event it yielded has been forwarded, the endpoint has not
  finished.
\<close>

definition event_generator ::
  "(json \<Rightarrow> string) \<Rightarrow> real \<Rightarrow> (nat \<Rightarrow> client_probe) \<Rightarrow> stream_result \<Rightarrow> api_result" where
  "event_generator dumps api_start probe sub =
     (case forward_events dumps api_start probe 0 (yielded sub) of
        (out, Stop) \<Rightarrow> \<lparr>sse_sent = out, finished = True\<rparr>
      | (out, Throw x) \<Rightarrow> \<lparr>sse_sent = out @ [error_sse dumps (exception_str x)], finished = True\<rparr>
      | (out, Next) \<Rightarrow>
          (case status sub of
             Raised x \<Rightarrow> \<lparr>sse_sent = out @ [error_sse dumps (exception_str x)], finished = True\<rparr>
           | Returned \<Rightarrow> \<lparr>sse_sent = out, finished = True\<rparr>
           | Waiting \<Rightarrow> \<lparr>sse_sent = out, finished = False\<rparr>))"

section \<open>Python strings\<close>

text \<open>
  Strings are lists of characters. The functions below are the string methods the code
  calls, on ASCII text: \<open>lower\<close>, \<open>isspace\<close>, \<open>strip\<close>, \<open>split\<close>, \<open>find\<close>, \<open>rfind\<close>,
  slices with Python's rule for negative and out-of-range bounds, and \<open>str\<close> of an
  integer.
\<close>

definition lower_char :: "char \<Rightarrow> char" where
  "lower_char c =
     (let n = (of_char c :: nat) in if 65 \<le> n \<and> n \<le> 90 then char_of (n + 32) else c)"

definition py_lower :: "string \<Rightarrow> string" where
  "py_lower s = map lower_char s"

definition py_isspace :: "char \<Rightarrow> bool" where
  "py_isspace c = (let n = (of_char c :: nat) in (9 \<le> n \<and> n \<le> 13) \<or> (28 \<le> n \<and> n \<le> 32))"

definition py_strip :: "string \<Rightarrow> string" where
  "py_strip s = rev (dropWhile py_isspace (rev (dropWhile py_isspace s)))"

text \<open>\<open>s.split()\<close>: the maximal runs of characters that are not whitespace; \<open>cur\<close> is
  the run being read, reversed.\<close>

fun split_from :: "string \<Rightarrow> string \<Rightarrow> string list" where
  "split_from cur [] = (if cur = [] then [] else [rev cur])"
| "split_from cur (c # cs) =
     (if py_isspace c then (if cur = [] then split_from [] cs else rev cur # split_from [] cs)
      else split_from (c # cur) cs)"

definition py_split :: "string \<Rightarrow> string list" where
  "py_split s = split_from [] s"

text \<open>\<open>s[a:b]\<close>; \<open>s[:b]\<close> is \<open>py_slice s 0 b\<close>.\<close>

definition slice_bound :: "nat \<Rightarrow> int \<Rightarrow> nat" where
  "slice_bound n i = (if i < 0 then nat (max (i + int n) 0) else min (nat i) n)"

definition py_slice :: "'a list \<Rightarrow> int \<Rightarrow> int \<Rightarrow> 'a list" where
  "py_slice s a b =
     (let lo = slice_bound (length s) a; hi = slice_bound (length s) b
      in take (hi - lo) (drop lo s))"

definition matches_at :: "string \<Rightarrow> string \<Rightarrow> nat \<Rightarrow> bool" where
  "matches_at hay needle i = (take (length needle) (drop i hay) = needle)"

text \<open>\<open>hay.find(needle, start)\<close> and \<open>hay.rfind(needle)\<close>: an index, or \<open>-1\<close>.\<close>

definition py_find :: "string \<Rightarrow> string \<Rightarrow> nat \<Rightarrow> int" where
  "py_find hay needle start =
     (case List.find (matches_at hay needle) [start ..< Suc (length hay)] of
        None \<Rightarrow> - 1
      | Some i \<Rightarrow> int i)"

definition py_rfind :: "string \<Rightarrow> string \<Rightarrow> int" where
  "py_rfind hay needle =
     (case List.find (matches_at hay needle) (rev [0 ..< Suc (length hay)]) of
        None \<Rightarrow> - 1
      | Some i \<Rightarrow> int i)"

text \<open>\<open>needle in hay\<close>.\<close>

definition py_contains :: "string \<Rightarrow> string \<Rightarrow> bool" where
  "py_contains needle hay = (py_find hay needle 0 \<noteq> - 1)"

fun digits_of :: "nat \<Rightarrow> nat \<Rightarrow> string" where
  "digits_of 0 n = []"
| "digits_of (Suc fuel) n =
     (if n < 10 then [char_of (48 + n)]
      else digits_of fuel (n div 10) @ [char_of (48 + n mod 10)])"

text \<open>A number \<open>n\<close> has at most \<open>n + 1\<close> digits, so the count below is always enough.\<close>

definition str_nat :: "nat \<Rightarrow> string" where
  "str_nat n = digits_of (Suc n) n"

definition str_int :: "int \<Rightarrow> string" where
  "str_int i = (if i < 0 then CHR ''-'' # str_nat (nat (- i)) else str_nat (nat i))"

text \<open>\<open>sep.join(parts)\<close>.\<close>

fun py_join :: "string \<Rightarrow> string list \<Rightarrow> string" where
  "py_join sep [] = []"
| "py_join sep [x] = x"
| "py_join sep (x # y # ys) = x @ sep @ py_join sep (y # ys)"

section \<open>The PDF processor (pdf/processor.py, PDFProcessor)\<close>

text \<open>
  The directory of PDF files is the processor's input from the world. A file either
  cannot be opened by pdfplumber or has pages; \<open>extract_text\<close> of a page returns a
  string, returns nothing, or raises. The entries stand in the order \<open>glob\<close> lists them.
\<close>

datatype page_src = PageText string | PageEmpty | PageRaises

record pdf_file =
  can_open :: bool
  meta_title :: "string option"
  src_pages :: "page_src list"
  file_size :: int

record pdf_metadata =
  md_filename :: string
  md_title :: "string option"
  page_count :: int
  size_bytes :: int

record pdf_page =
  page_number :: int
  page_text :: string
  word_count :: int

record pdf_document =
  doc_filename :: string
  doc_metadata :: pdf_metadata
  pages :: "pdf_page list"

record processor =
  pdf_directory :: "(string \<times> pdf_file) list"
  document_cache :: "string \<rightharpoonup> pdf_document"
  page_text_cache :: "string \<rightharpoonup> (int \<rightharpoonup> string)"

text \<open>\<open>page.extract_text() or ""\<close>, for a page that does not raise.\<close>

fun text_or_empty :: "page_src \<Rightarrow> string" where
  "text_or_empty (PageText t) = t"
| "text_or_empty p = []"

definition make_page :: "int \<Rightarrow> string \<Rightarrow> pdf_page" where
  "make_page n t = \<lparr>page_number = n, page_text = t, word_count = int (length (py_split t))\<rparr>"

text \<open>\<open>Path.suffix\<close> of a file name, and the pattern \<open>*.pdf\<close> of \<open>glob\<close>.\<close>

definition path_suffix :: "string \<Rightarrow> string" where
  "path_suffix name =
     (case List.find (\<lambda>i. name ! i = CHR ''.'') (rev [0 ..< length name]) of
        None \<Rightarrow> []
      | Some i \<Rightarrow> if 0 < i \<and> i < length name - 1 then drop i name else [])"

definition glob_pdf :: "string \<Rightarrow> bool" where
  "glob_pdf name = (4 \<le> length name \<and> drop (length name - 4) name = ''.pdf'')"

definition make_metadata :: "string \<Rightarrow> pdf_file \<Rightarrow> pdf_metadata" where
  "make_metadata name f =
     \<lparr>md_filename = name, md_title = meta_title f, page_count = int (length (src_pages f)),
      size_bytes = file_size f\<rparr>"

text \<open>list_pdfs: a file that cannot be opened is skipped.\<close>

definition list_pdfs :: "processor \<Rightarrow> pdf_metadata list" where
  "list_pdfs s =
     map (\<lambda>(name, f). make_metadata name f)
       (filter (\<lambda>(name, f). glob_pdf name \<and> can_open f) (pdf_directory s))"

definition get_pdf_path :: "processor \<Rightarrow> string \<Rightarrow> pdf_file option" where
  "get_pdf_path s filename =
     (case map_of (pdf_directory s) filename of
        None \<Rightarrow> None
      | Some f \<Rightarrow> if py_lower (path_suffix filename) = ''.pdf'' then Some f else None)"

definition cache_page ::
  "(string \<rightharpoonup> (int \<rightharpoonup> string)) \<Rightarrow> string \<Rightarrow> int \<Rightarrow> string \<Rightarrow> (string \<rightharpoonup> (int \<rightharpoonup> string))" where
  "cache_page c filename i t =
     c(filename \<mapsto> (case c filename of None \<Rightarrow> Map.empty | Some m \<Rightarrow> m)(i \<mapsto> t))"

text \<open>
  The page loop of extract_document, lines 100-111. A page whose \<open>extract_text\<close> raises
  ends the loop with the exception (\<open>None\<close>); the texts cached before it stay cached.
\<close>

fun read_pages ::
  "string \<Rightarrow> page_src list \<Rightarrow> int \<Rightarrow> (string \<rightharpoonup> (int \<rightharpoonup> string))
     \<Rightarrow> pdf_page list option \<times> (string \<rightharpoonup> (int \<rightharpoonup> string))" where
  "read_pages filename [] i c = (Some [], c)"
| "read_pages filename (PageRaises # ps) i c = (None, c)"
| "read_pages filename (p # ps) i c =
     (case read_pages filename ps (i + 1) (cache_page c filename i (text_or_empty p)) of
        (None, c') \<Rightarrow> (None, c')
      | (Some rest, c') \<Rightarrow> (Some (make_page i (text_or_empty p) # rest), c'))"

definition extract_document ::
  "string \<Rightarrow> bool \<Rightarrow> processor \<Rightarrow> pdf_document option \<times> processor" where
  "extract_document filename use_cache s =
     (if use_cache \<and> document_cache s filename \<noteq> None then (document_cache s filename, s)
      else
        (case get_pdf_path s filename of
           None \<Rightarrow> (None, s)
         | Some f \<Rightarrow>
             if \<not> can_open f then (None, s)
             else
               (case read_pages filename (src_pages f) 1 (page_text_cache s) of
                  (None, c) \<Rightarrow> (None, s\<lparr>page_text_cache := c\<rparr>)
                | (Some ps, c) \<Rightarrow>
                    (let document =
                           \<lparr>doc_filename = filename, doc_metadata = make_metadata filename f,
                            pages = ps\<rparr>
                     in (Some document,
                         s\<lparr>page_text_cache := c,
                           document_cache := (document_cache s)(filename \<mapsto> document)\<rparr>)))))"

definition cached_page_text :: "processor \<Rightarrow> string \<Rightarrow> int \<Rightarrow> string option" where
  "cached_page_text s filename n =
     (case page_text_cache s filename of None \<Rightarrow> None | Some m \<Rightarrow> m n)"

definition extract_page :: "string \<Rightarrow> int \<Rightarrow> processor \<Rightarrow> pdf_page option \<times> processor" where
  "extract_page filename n s =
     (case cached_page_text s filename n of
        Some t \<Rightarrow> (Some (make_page n t), s)
      | None \<Rightarrow>
          (case get_pdf_path s filename of
             None \<Rightarrow> (None, s)
           | Some f \<Rightarrow>
               if \<not> can_open f then (None, s)
               else if n < 1 \<or> n > int (length (src_pages f)) then (None, s)
               else
                 (case src_pages f ! nat (n - 1) of
                    PageRaises \<Rightarrow> (None, s)
                  | p \<Rightarrow>
                      (Some (make_page n (text_or_empty p)),
                       s\<lparr>page_text_cache :=
                            cache_page (page_text_cache s) filename n (text_or_empty p)\<rparr>))))"

text \<open>One search hit: file, page, context, start and end of the match.\<close>

type_synonym hit = "string \<times> int \<times> string \<times> int \<times> int"

definition make_hit :: "string \<Rightarrow> pdf_page \<Rightarrow> string \<Rightarrow> nat \<Rightarrow> hit" where
  "make_hit fname page query pos =
     (let t = page_text page;
          context_start = max 0 (int pos - 100);
          context_end = min (int (length t)) (int pos + int (length query) + 100);
          context = py_slice t context_start context_end;
          context1 = (if context_start > 0 then ''...'' @ context else context);
          context2 = (if context_end < int (length t) then context1 @ ''...'' else context1)
      in (fname, page_number page, context2, int pos, int pos + int (length query)))"

lemma find_in_range:
  "List.find P [a ..< b] = Some i \<Longrightarrow> a \<le> i \<and> i < b"
  by (auto simp: find_Some_iff)

text \<open>
  The \<open>while True\<close> of lines 209-236 on one page. The flag of the result says that the
  function returned from inside the loop (\<open>max_results\<close> reached).
\<close>

function search_page ::
  "string \<Rightarrow> pdf_page \<Rightarrow> string \<Rightarrow> int \<Rightarrow> nat \<Rightarrow> hit list \<Rightarrow> hit list \<times> bool" where
  "search_page fname page query max_results start results =
     (let pos = py_find (py_lower (page_text page)) (py_lower query) start
      in if pos = - 1 then (results, False)
         else
           (let results' = results @ [make_hit fname page query (nat pos)]
            in if int (length results') \<ge> max_results then (results', True)
               else search_page fname page query max_results (nat pos + 1) results'))"
  by pat_completeness auto
termination
proof (relation "measure (\<lambda>(fname, page, query, max_results, start, results).
                    Suc (length (page_text page)) - start)")
  show "wf (measure (\<lambda>(fname, page, query, max_results, start, results).
                    Suc (length (page_text page)) - start))"
    by simp
next
  fix fname :: string and page :: pdf_page and query :: string and max_results :: int
    and start :: nat and results :: "hit list" and pos :: int and results' :: "hit list"
  assume p: "pos = py_find (py_lower (page_text page)) (py_lower query) start"
    and n: "pos \<noteq> - 1"
  from p n obtain i where
    "List.find (matches_at (py_lower (page_text page)) (py_lower query))
       [start ..< Suc (length (py_lower (page_text page)))] = Some i" "pos = int i"
    by (auto simp: py_find_def split: option.splits)
  with find_in_range[OF this(1)] have "start \<le> nat pos" "nat pos < Suc (length (page_text page))"
    by (auto simp: py_lower_def)
  then show "((fname, page, query, max_results, nat pos + 1, results'),
              (fname, page, query, max_results, start, results))
             \<in> measure (\<lambda>(fname, page, query, max_results, start, results).
                    Suc (length (page_text page)) - start)"
    by simp
qed

fun search_pages ::
  "string \<Rightarrow> pdf_page list \<Rightarrow> string \<Rightarrow> int \<Rightarrow> hit list \<Rightarrow> hit list \<times> bool" where
  "search_pages fname [] query max_results results = (results, False)"
| "search_pages fname (page # rest) query max_results results =
     (case search_page fname page query max_results 0 results of
        (results', True) \<Rightarrow> (results', True)
      | (results', False) \<Rightarrow> search_pages fname rest query max_results results')"

fun search_files ::
  "string list \<Rightarrow> string \<Rightarrow> int \<Rightarrow> hit list \<Rightarrow> processor \<Rightarrow> hit list \<times> processor" where
  "search_files [] query max_results results s = (results, s)"
| "search_files (fname # rest) query max_results results s =
     (case extract_document fname True s of
        (None, s') \<Rightarrow> search_files rest query max_results results s'
      | (Some document, s') \<Rightarrow>
          (case search_pages fname (pages document) query max_results results of
             (results', True) \<Rightarrow> (results', s')
           | (results', False) \<Rightarrow> search_files rest query max_results results' s'))"

definition search_text ::
  "string \<Rightarrow> string option \<Rightarrow> int \<Rightarrow> processor \<Rightarrow> hit list \<times> processor" where
  "search_text query filename max_results s =
     (let files_to_search =
            (case filename of
               Some f \<Rightarrow> if f \<noteq> [] then [f] else map md_filename (list_pdfs s)
             | None \<Rightarrow> map md_filename (list_pdfs s))
      in search_files files_to_search query max_results [] s)"

text \<open>
  create_citation builds a Citation, a validated model (models/schemas.py, lines 50-57):
  \<open>id\<close> and \<open>page_number\<close> must be at least 1, else the constructor raises a
  ValidationError. The text of that exception is given by its first line.
\<close>

definition validation_error :: "nat \<Rightarrow> string" where
  "validation_error n =
     str_nat n @ (if n = 1 then '' validation error'' else '' validation errors'')
       @ '' for Citation''"

definition create_citation :: "int \<Rightarrow> string \<Rightarrow> int \<Rightarrow> string \<Rightarrow> string + citation" where
  "create_citation citation_id filename page_no snippet =
     (let invalid = (if citation_id < 1 then 1 else 0) + (if page_no < 1 then 1 else (0::nat))
      in if invalid > 0 then Inl (validation_error invalid)
         else Inr \<lparr>cit_id = citation_id, document_name = filename, cit_page_number = page_no,
                   text_snippet = (if length snippet > 200 then take 200 snippet else snippet),
                   start_char = None, end_char = None\<rparr>)"

text \<open>
  get_semantic_chunks. \<open>chunk_step\<close> is the body of the \<open>while\<close> of lines 302-314 up to
  the append: the chunk and where it ends. The loop itself may run forever, so it is a
  partial function: \<open>None\<close> is the loop that does not return.
\<close>

definition chunk_step :: "string \<Rightarrow> int \<Rightarrow> int \<Rightarrow> string \<times> int" where
  "chunk_step t chunk_size start =
     (let end0 = start + chunk_size;
          chunk = py_slice t start end0
      in if end0 < int (length t) then
           (let last_period = py_rfind chunk ''. ''
            in if last_period > chunk_size div 2
               then (py_slice chunk 0 (last_period + 1), start + last_period + 1)
               else (chunk, end0))
         else (chunk, end0))"

partial_function (option) chunk_loop ::
  "string \<Rightarrow> int \<Rightarrow> int \<Rightarrow> int \<Rightarrow> int \<Rightarrow> (int \<times> string) list \<Rightarrow> (int \<times> string) list option" where
  "chunk_loop t chunk_size overlap page_no start chunks =
     (if start < int (length t) then
        chunk_loop t chunk_size overlap page_no
          (snd (chunk_step t chunk_size start) - overlap)
          (chunks @ [(page_no, py_strip (fst (chunk_step t chunk_size start)))])
      else Some chunks)"

declare chunk_loop.simps [code]

fun chunk_pages ::
  "pdf_page list \<Rightarrow> int \<Rightarrow> int \<Rightarrow> (int \<times> string) list \<Rightarrow> (int \<times> string) list option" where
  "chunk_pages [] chunk_size overlap chunks = Some chunks"
| "chunk_pages (page # rest) chunk_size overlap chunks =
     (if page_text page = [] then chunk_pages rest chunk_size overlap chunks
      else
        (case chunk_loop (page_text page) chunk_size overlap (page_number page) 0 chunks of
           None \<Rightarrow> None
         | Some chunks' \<Rightarrow> chunk_pages rest chunk_size overlap chunks'))"

definition get_semantic_chunks ::
  "string \<Rightarrow> int \<Rightarrow> int \<Rightarrow> processor \<Rightarrow> ((int \<times> string) list \<times> processor) option" where
  "get_semantic_chunks filename chunk_size overlap s =
     (case extract_document filename True s of
        (None, s') \<Rightarrow> Some ([], s')
      | (Some document, s') \<Rightarrow>
          (case chunk_pages (pages document) chunk_size overlap [] of
             None \<Rightarrow> None
           | Some chunks \<Rightarrow> Some (chunks, s')))"

text \<open>
  The DELETE endpoint of api/chat.py, lines 262-284: it removes the file, then clears
  \<open>processor._cache\<close> if the processor has such an attribute. PDFProcessor has none (its
  caches are \<open>_document_cache\<close> and \<open>_page_text_cache\<close>), so nothing is cleared. The result
  is the HTTP status.
\<close>

definition delete_pdf :: "string \<Rightarrow> processor \<Rightarrow> nat \<times> processor" where
  "delete_pdf filename s =
     (case get_pdf_path s filename of
        None \<Rightarrow> (404, s)
      | Some f \<Rightarrow> (200, s\<lparr>pdf_directory := filter (\<lambda>(name, g). name \<noteq> filename) (pdf_directory s)\<rparr>))"

section \<open>The agent (langgraph/agent.py)\<close>

subsection \<open>State, collaborators and the streaming handler\<close>

datatype chat_message = SystemMessage string | HumanMessage string | AIMessage string

record agent_state =
  st_messages :: "chat_message list"
  st_job_id :: string
  st_query :: string
  relevant_documents :: "(string \<times> int \<times> string) list"
  st_citations :: "citation list"
  st_ui_blocks :: "ui_block list"
  current_step :: string
  final_response :: string
  error_message :: "string option"

text \<open>The nodes of the graph, lines 507-513.\<close>

datatype node =
    AnalyzeQuery | SearchDocuments | ExtractContent | SynthesizeAnswer | GenerateUIBlocks
  | Finalize

text \<open>
  The collaborators of a run. The text-generation service: \<open>create_llm\<close> may raise, and so
  may \<open>invoke\<close> and \<open>stream\<close> (an exception is the text \<open>str(e)\<close> gives; a stream
  delivers the contents of its chunks and may then raise). \<open>graph_error\<close> is the
  exception of \<open>get_agent_graph()\<close>, if it raises. \<open>set_order\<close> is the order in which
  Python iterates a set of strings, given its elements in insertion order.

  \<open>node_fault\<close> is an exception that strikes a node from outside its own code: the
  operating system under the PDF directory, a library, the connection to the store.
  \<open>Some (k, e)\<close> says that the node raises \<open>e\<close> on the way to, or in, its
  \<open>(k+1)\<close>-th call of the streaming handler, when \<open>k\<close> events of the node have been
  published. (After its last call of the handler no node has anything left that can
  raise.)
\<close>

record collaborators =
  llm_create_error :: "string option"
  llm_invoke :: "chat_message list \<Rightarrow> string + chat_message"
  llm_stream :: "chat_message list \<Rightarrow> string list \<times> string option"
  graph_error :: "string option"
  set_order :: "string list \<Rightarrow> string list"
  node_fault :: "node \<Rightarrow> (nat \<times> string) option"

text \<open>
  What a run works on: the PDF processor, and the events handed to the publisher so
  far, in call order (every method of StreamingHandler is one call of publish_event).
\<close>

record world =
  pdfs :: processor
  emitted :: "stream_event list"

definition emit :: "stream_event \<Rightarrow> world \<Rightarrow> world" where
  "emit e w = w\<lparr>emitted := emitted w @ [e]\<rparr>"

definition emoji_search :: string where
  "emoji_search = [CHR 0xF0, CHR 0x9F, CHR 0x94, CHR 0x8D]"

definition emoji_page :: string where
  "emoji_page = [CHR 0xF0, CHR 0x9F, CHR 0x93, CHR 0x84]"

definition emoji_books :: string where
  "emoji_books = [CHR 0xF0, CHR 0x9F, CHR 0x93, CHR 0x9A]"

definition emoji_clipboard :: string where
  "emoji_clipboard = [CHR 0xF0, CHR 0x9F, CHR 0x93, CHR 0x8B]"

definition emoji_brain :: string where
  "emoji_brain = [CHR 0xF0, CHR 0x9F, CHR 0xA7, CHR 0xA0]"

definition emoji_tabs :: string where
  "emoji_tabs = [CHR 0xF0, CHR 0x9F, CHR 0x93, CHR 0x91]"

definition emoji_mailbox :: string where
  "emoji_mailbox = [CHR 0xF0, CHR 0x9F, CHR 0x93, CHR 0xAD]"

definition emoji_warning :: string where
  "emoji_warning = [CHR 0xE2, CHR 0x9A, CHR 0xA0, CHR 0xEF, CHR 0xB8, CHR 0x8F]"

definition tool_descriptions :: "string \<Rightarrow> (string \<times> tool_type) option" where
  "tool_descriptions =
     map_of
       [(''search_documents'', (emoji_search @ '' Searching documents...'', SEARCH_DOCUMENTS)),
        (''read_pdf_page'', (emoji_page @ '' Reading PDF page...'', READ_PDF)),
        (''list_available_documents'', (emoji_books @ '' Listing documents...'', SEARCH_DOCUMENTS)),
        (''get_document_summary'', (emoji_clipboard @ '' Getting document summary...'', READ_PDF))]"

definition on_tool_start :: "string \<Rightarrow> world \<Rightarrow> world" where
  "on_tool_start tool_name w =
     (case tool_descriptions tool_name of
        Some (desc, ty) \<Rightarrow> emit (ToolCallStartEvent ty tool_name desc) w
      | None \<Rightarrow>
          emit (ToolCallStartEvent ANALYZE_CONTENT tool_name
                  (emoji_brain @ '' Running '' @ tool_name @ ''...'')) w)"

definition on_tool_end :: "string \<Rightarrow> bool \<Rightarrow> string option \<Rightarrow> world \<Rightarrow> world" where
  "on_tool_end tool_name success summary w =
     (case tool_descriptions tool_name of
        Some (desc, ty) \<Rightarrow> emit (ToolCallEndEvent ty tool_name success summary) w
      | None \<Rightarrow> emit (ToolCallEndEvent ANALYZE_CONTENT tool_name success summary) w)"

definition stream_text :: "string \<Rightarrow> world \<Rightarrow> world" where
  "stream_text content w = emit (TextChunkEvent content) w"

definition add_citation :: "citation \<Rightarrow> world \<Rightarrow> world" where
  "add_citation c w = emit (CitationEvent c) w"

definition add_ui_block :: "ui_block \<Rightarrow> world \<Rightarrow> world" where
  "add_ui_block b w = emit (UIBlockEvent b) w"

definition handler_finish :: "world \<Rightarrow> world" where
  "handler_finish w = emit (DoneEvent None) w"

definition handler_error :: "string \<Rightarrow> bool \<Rightarrow> world \<Rightarrow> world" where
  "handler_error msg recoverable w = emit (ErrorEvent msg recoverable) w"

subsection \<open>analyze_query_node\<close>

text \<open>The two system prompts are long fixed texts; they are given by their first
  sentence, and nothing below reads them.\<close>

definition analyze_system_prompt :: string where
  "analyze_system_prompt =
     ''You are a helpful AI assistant that searches through PDF documents to answer questions.''"

definition analyze_query_node ::
  "collaborators \<Rightarrow> agent_state \<Rightarrow> world \<Rightarrow> (string + agent_state) \<times> world" where
  "analyze_query_node co state w =
     (let w1 = on_tool_start ''analyze_query'' w
      in case llm_create_error co of
           Some err \<Rightarrow> (Inl err, w1)
         | None \<Rightarrow>
             (case llm_invoke co
                     [SystemMessage analyze_system_prompt,
                      HumanMessage (''User query: '' @ st_query state @ [CHR 0x0A, CHR 0x0A]
                                      @ ''Analyze this query and explain what to search for.'')] of
                Inl err \<Rightarrow> (Inl err, w1)
              | Inr response \<Rightarrow>
                  (Inr (state\<lparr>st_messages := st_messages state @ [response],
                              current_step := ''search_documents''\<rparr>),
                   on_tool_end ''analyze_query'' True (Some ''Query analyzed'') w1)))"

subsection \<open>search_documents_node\<close>

definition stopwords :: "string list" where
  "stopwords =
     [''summarize'', ''summarise'', ''my'', ''the'', ''a'', ''an'', ''is'', ''are'', ''was'',
      ''were'', ''what'', ''how'', ''why'', ''when'', ''where'', ''who'', ''which'', ''tell'',
      ''me'', ''about'', ''can'', ''you'', ''please'', ''give'', ''show'', ''find'', ''get'',
      ''list'', ''describe'', ''explain'']"

text \<open>The inner loop of phase 1, lines 191-194: a hit is added unless its (file, page)
  is already there.\<close>

fun add_hits :: "hit list \<Rightarrow> (string \<times> int \<times> string) list \<Rightarrow> (string \<times> int \<times> string) list" where
  "add_hits [] docs = docs"
| "add_hits ((fname, page_num, context, a, b) # rest) docs =
     (if (fname, page_num) \<in> set (map (\<lambda>(f, p, c). (f, p)) docs) then add_hits rest docs
      else add_hits rest (docs @ [(fname, page_num, context)]))"

fun keyword_phase ::
  "string list \<Rightarrow> (string \<times> int \<times> string) list \<Rightarrow> processor
     \<Rightarrow> (string \<times> int \<times> string) list \<times> processor" where
  "keyword_phase [] docs s = (docs, s)"
| "keyword_phase (keyword # rest) docs s =
     (case search_text keyword None 3 s of
        (results, s') \<Rightarrow> keyword_phase rest (add_hits results docs) s')"

text \<open>Phase 2, lines 201-210: the first page of each file whose name contains a word
  of the query longer than two characters.\<close>

fun filename_phase ::
  "pdf_metadata list \<Rightarrow> string list \<Rightarrow> (string \<times> int \<times> string) list \<Rightarrow> processor
     \<Rightarrow> (string \<times> int \<times> string) list \<times> processor" where
  "filename_phase [] ws docs s = (docs, s)"
| "filename_phase (pdf # rest) ws docs s =
     (if \<exists>w \<in> set ws. py_contains w (py_lower (md_filename pdf)) \<and> length w > 2 then
        (case extract_page (md_filename pdf) 1 s of
           (Some page, s') \<Rightarrow>
             if page_text page \<noteq> [] then
               filename_phase rest ws
                 (docs @ [(md_filename pdf, 1, take 500 (page_text page))]) s'
             else filename_phase rest ws docs s'
         | (None, s') \<Rightarrow> filename_phase rest ws docs s')
      else filename_phase rest ws docs s)"

text \<open>Phase 3, lines 218-223: up to three chunks of every file, the empty ones left out.\<close>

definition add_chunks ::
  "string \<Rightarrow> (int \<times> string) list \<Rightarrow> (string \<times> int \<times> string) list
     \<Rightarrow> (string \<times> int \<times> string) list" where
  "add_chunks fname chunks docs =
     docs @ map (\<lambda>(page_num, chunk_text). (fname, page_num, chunk_text))
              (filter (\<lambda>(page_num, chunk_text). chunk_text \<noteq> []) (take 3 chunks))"

fun chunk_phase ::
  "pdf_metadata list \<Rightarrow> (string \<times> int \<times> string) list \<Rightarrow> processor
     \<Rightarrow> ((string \<times> int \<times> string) list \<times> processor) option" where
  "chunk_phase [] docs s = Some (docs, s)"
| "chunk_phase (pdf # rest) docs s =
     (case get_semantic_chunks (md_filename pdf) 1000 100 s of
        None \<Rightarrow> None
      | Some (chunks, s') \<Rightarrow> chunk_phase rest (add_chunks (md_filename pdf) chunks docs) s')"

text \<open>Lines 226-230: the first page of every file, when no chunk was found.\<close>

fun first_page_phase ::
  "pdf_metadata list \<Rightarrow> (string \<times> int \<times> string) list \<Rightarrow> processor
     \<Rightarrow> (string \<times> int \<times> string) list \<times> processor" where
  "first_page_phase [] docs s = (docs, s)"
| "first_page_phase (pdf # rest) docs s =
     (case extract_page (md_filename pdf) 1 s of
        (Some page, s') \<Rightarrow>
          if page_text page \<noteq> [] then
            first_page_phase rest (docs @ [(md_filename pdf, 1, take 2000 (page_text page))]) s'
          else first_page_phase rest docs s'
      | (None, s') \<Rightarrow> first_page_phase rest docs s')"

definition fallback_phase ::
  "processor \<Rightarrow> ((string \<times> int \<times> string) list \<times> processor) option" where
  "fallback_phase s =
     (let available_pdfs = list_pdfs s
      in case chunk_phase available_pdfs [] s of
           None \<Rightarrow> None
         | Some (docs, s') \<Rightarrow>
             if docs = [] then Some (first_page_phase available_pdfs [] s') else Some (docs, s'))"

definition documents_loaded_block :: "(string \<times> int \<times> string) list \<Rightarrow> ui_block" where
  "documents_loaded_block docs =
     InfoCard (emoji_books @ '' Documents Loaded'')
       (''Loaded '' @ str_nat (length docs) @ '' section(s) from ''
          @ str_nat (card (set (map fst docs))) @ '' document(s).'')
       (Some emoji_tabs)"

definition no_documents_block :: ui_block where
  "no_documents_block =
     InfoCard (emoji_mailbox @ '' No Documents'')
       ''No PDF documents found. Please upload documents first.''
       (Some emoji_warning)"

text \<open>The words and the keywords of the query, lines 185-186.\<close>

definition query_words :: "string \<Rightarrow> string list" where
  "query_words q = py_split (py_lower q)"

definition query_keywords :: "string \<Rightarrow> string list" where
  "query_keywords q = filter (\<lambda>w. w \<notin> set stopwords \<and> length w > 2) (query_words q)"

definition phase1 :: "string \<Rightarrow> processor \<Rightarrow> (string \<times> int \<times> string) list \<times> processor" where
  "phase1 q s = keyword_phase (query_keywords q) [] s"

definition phase2 :: "string \<Rightarrow> processor \<Rightarrow> (string \<times> int \<times> string) list \<times> processor" where
  "phase2 q s = filename_phase (list_pdfs s) (query_words q) [] s"

text \<open>The three phases, lines 185-230: each later one runs only when the list is still
  empty.\<close>

definition retrieve ::
  "string \<Rightarrow> processor \<Rightarrow> ((string \<times> int \<times> string) list \<times> processor) option" where
  "retrieve q s =
     (case phase1 q s of
        (docs1, s1) \<Rightarrow>
          if docs1 \<noteq> [] then Some (docs1, s1)
          else
            (case phase2 q s1 of
               (docs2, s2) \<Rightarrow>
                 if docs2 \<noteq> [] then Some (docs2, s2) else fallback_phase s2))"

definition search_documents_node ::
  "agent_state \<Rightarrow> world \<Rightarrow> (agent_state \<times> world) option" where
  "search_documents_node state w =
     (let w1 = on_tool_start ''search_documents'' w
      in case retrieve (st_query state) (pdfs w1) of
           None \<Rightarrow> None
         | Some (relevant_docs, s') \<Rightarrow>
             (let info_block =
                    (if relevant_docs \<noteq> [] then documents_loaded_block relevant_docs
                     else no_documents_block);
                  w2 = add_ui_block info_block (w1\<lparr>pdfs := s'\<rparr>);
                  w3 = on_tool_end ''search_documents'' True
                         (Some (''Loaded '' @ str_nat (length relevant_docs)
                                  @ '' sections from documents'')) w2
              in Some (state\<lparr>relevant_documents := relevant_docs,
                             current_step := ''extract_content'',
                             st_ui_blocks := [info_block]\<rparr>, w3)))"

subsection \<open>extract_content_node\<close>

text \<open>Lines 283-296: the pages of the first three sections, each (file, page) once.\<close>

fun extract_pages ::
  "(string \<times> int \<times> string) list \<Rightarrow> (string \<times> int) list \<Rightarrow> processor
     \<Rightarrow> (string \<times> int \<times> string) list \<times> processor" where
  "extract_pages [] seen s = ([], s)"
| "extract_pages ((fname, page_num, context) # rest) seen s =
     (if (fname, page_num) \<in> set seen then extract_pages rest seen s
      else
        (case extract_page fname page_num s of
           (Some page, s') \<Rightarrow>
             (case extract_pages rest ((fname, page_num) # seen) s' of
                (content, s'') \<Rightarrow> ((fname, page_num, take 2000 (page_text page)) # content, s''))
         | (None, s') \<Rightarrow> extract_pages rest ((fname, page_num) # seen) s'))"

definition content_summary :: "(string \<times> int \<times> string) list \<Rightarrow> string" where
  "content_summary content =
     py_join [CHR 0x0A, CHR 0x0A]
       (map (\<lambda>(fname, page_num, t).
               ''From '' @ fname @ '', Page '' @ str_int page_num @ '':'' @ [CHR 0x0A] @ t)
          content)"

definition extract_content_node :: "agent_state \<Rightarrow> world \<Rightarrow> agent_state \<times> world" where
  "extract_content_node state w =
     (let w1 = on_tool_start ''read_pdf_page'' w
      in case extract_pages (take 3 (relevant_documents state)) [] (pdfs w1) of
           (content, s') \<Rightarrow>
             (state\<lparr>st_messages := st_messages state
                       @ [HumanMessage (''Extracted content:'' @ [CHR 0x0A]
                                          @ content_summary content)],
                    current_step := ''synthesize_answer''\<rparr>,
              on_tool_end ''read_pdf_page'' True
                (Some (''Extracted content from '' @ str_nat (length content) @ '' pages''))
                (w1\<lparr>pdfs := s'\<rparr>)))"

subsection \<open>synthesize_answer_node\<close>

definition is_digit :: "char \<Rightarrow> bool" where
  "is_digit c = (let n = (of_char c :: nat) in 48 \<le> n \<and> n \<le> 57)"

text \<open>
  \<open>re.findall\<close> of the pattern \<open>\[[\d,\s]+\]\<close>, read left to right. \<open>cur\<close> is the
  text since the last opening bracket, as long as it can still become a match. A match
  starts at a bracket and holds no bracket inside, so a new opening bracket starts anew.
\<close>

definition in_bracket_class :: "char \<Rightarrow> bool" where
  "in_bracket_class c = (is_digit c \<or> c = CHR '','' \<or> py_isspace c)"

fun scan_brackets :: "string option \<Rightarrow> string \<Rightarrow> string list" where
  "scan_brackets cur [] = []"
| "scan_brackets cur (c # cs) =
     (if c = CHR ''['' then scan_brackets (Some [c]) cs
      else
        (case cur of
           None \<Rightarrow> scan_brackets None cs
         | Some run \<Rightarrow>
             if in_bracket_class c then scan_brackets (Some (run @ [c])) cs
             else if c = CHR '']'' \<and> length run \<ge> 2 then (run @ [c]) # scan_brackets None cs
             else scan_brackets None cs))"

definition find_brackets :: "string \<Rightarrow> string list" where
  "find_brackets t = scan_brackets None t"

text \<open>\<open>re.findall(r'\d+', s)\<close>: the maximal runs of digits; \<open>cur\<close> is the run being read,
  reversed.\<close>

fun scan_numbers :: "string \<Rightarrow> string \<Rightarrow> string list" where
  "scan_numbers cur [] = (if cur = [] then [] else [rev cur])"
| "scan_numbers cur (c # cs) =
     (if is_digit c then scan_numbers (c # cur) cs
      else if cur = [] then scan_numbers [] cs
      else rev cur # scan_numbers [] cs)"

definition find_numbers :: "string \<Rightarrow> string list" where
  "find_numbers t = scan_numbers [] t"

text \<open>\<open>cited_numbers.update(numbers)\<close>: the set, as the list of its elements in insertion
  order.\<close>

definition set_update :: "string list \<Rightarrow> string list \<Rightarrow> string list" where
  "set_update acc numbers = fold (\<lambda>x a. if x \<in> set a then a else a @ [x]) numbers acc"

definition cited_numbers :: "string \<Rightarrow> string list" where
  "cited_numbers full_response =
     fold (\<lambda>bracket acc. set_update acc (find_numbers bracket)) (find_brackets full_response) []"

text \<open>
  \<open>int(num_str)\<close> of a string of digits: \<open>int_of_digits\<close> is the number. Python
  (3.11, and 3.10 from 3.10.7) refuses a string of more than 4300 digits with a
  ValueError.
\<close>

definition int_of_digits :: "string \<Rightarrow> int" where
  "int_of_digits ds = int (fold (\<lambda>c a. 10 * a + (of_char c - 48)) ds 0)"

definition max_str_digits :: nat where
  "max_str_digits = 4300"

definition py_int :: "string \<Rightarrow> string + int" where
  "py_int ds =
     (if length ds > max_str_digits then
        Inl (''Exceeds the limit ('' @ str_nat max_str_digits
               @ '' digits) for integer string conversion: value has '' @ str_nat (length ds)
               @ '' digits; use sys.set_int_max_str_digits() to increase the limit'')
      else Inr (int_of_digits ds))"

text \<open>
  The loop of lines 376-388 over the cited numbers, in the order given: the citations
  it publishes, and the exception that ends it, if \<open>int\<close> or the Citation constructor
  raises.
\<close>

fun cite ::
  "string list \<Rightarrow> (string \<times> int \<times> string) list \<Rightarrow> citation list \<times> string option" where
  "cite [] docs = ([], None)"
| "cite (num_str # rest) docs =
     (case py_int num_str of
        Inl err \<Rightarrow> ([], Some err)
      | Inr num \<Rightarrow>
          if 1 \<le> num \<and> num \<le> int (length docs) then
            (case docs ! nat (num - 1) of
               (fname, page_num, context) \<Rightarrow>
                 (case create_citation num fname page_num (take 150 context) of
                    Inl err \<Rightarrow> ([], Some err)
                  | Inr citation \<Rightarrow>
                      (case cite rest docs of (cits, failure) \<Rightarrow> (citation # cits, failure))))
          else cite rest docs)"

definition synthesize_system_prompt :: string where
  "synthesize_system_prompt =
     ''You are a helpful AI assistant that answers questions based on PDF documents.''"

definition context_of :: "(string \<times> int \<times> string) list \<Rightarrow> string" where
  "context_of docs =
     py_join [CHR 0x0A, CHR 0x0A]
       (map (\<lambda>(i, (fname, page_num, context)).
               ''['' @ str_nat i @ ''] From '' @ fname @ '', Page '' @ str_int page_num
                 @ '':'' @ [CHR 0x0A] @ context)
          (zip [1 ..< Suc (length docs)] docs))"

definition synthesize_answer_node ::
  "collaborators \<Rightarrow> agent_state \<Rightarrow> world \<Rightarrow> (string + agent_state) \<times> world" where
  "synthesize_answer_node co state w =
     (let w1 = on_tool_start ''synthesize_answer'' w
      in case llm_create_error co of
           Some err \<Rightarrow> (Inl err, w1)
         | None \<Rightarrow>
             (case llm_stream co
                     [SystemMessage synthesize_system_prompt,
                      HumanMessage (''Context:'' @ [CHR 0x0A] @ context_of (relevant_documents state)
                                      @ [CHR 0x0A, CHR 0x0A] @ ''User question: '' @ st_query state)] of
                (contents, failure) \<Rightarrow>
                  (let spoken = filter (\<lambda>content. content \<noteq> []) contents;
                       w2 = fold stream_text spoken w1;
                       full_response = concat spoken
                   in case failure of
                        Some err \<Rightarrow> (Inl err, w2)
                      | None \<Rightarrow>
                          (let w3 = on_tool_end ''synthesize_answer'' True (Some ''Answer generated'') w2
                           in case cite (set_order co (cited_numbers full_response))
                                     (relevant_documents state) of
                                (cits, Some err) \<Rightarrow> (Inl err, fold add_citation cits w3)
                              | (cits, None) \<Rightarrow>
                                  (Inr (state\<lparr>st_messages := st_messages state @ [AIMessage full_response],
                                              st_citations := cits,
                                              final_response := full_response,
                                              current_step := ''done''\<rparr>),
                                   fold add_citation cits w3)))))"

subsection \<open>generate_ui_blocks_node\<close>

text \<open>\<open>unique_docs\<close>, lines 409-414: a dict keeps its keys in insertion order.\<close>

fun add_page :: "(string \<times> int list) list \<Rightarrow> string \<Rightarrow> int \<Rightarrow> (string \<times> int list) list" where
  "add_page [] fname page_num = [(fname, [page_num])]"
| "add_page ((g, ps) # rest) fname page_num =
     (if g = fname then (g, if page_num \<in> set ps then ps else ps @ [page_num]) # rest
      else (g, ps) # add_page rest fname page_num)"

definition unique_docs :: "(string \<times> int \<times> string) list \<Rightarrow> (string \<times> int list) list" where
  "unique_docs documents =
     fold (\<lambda>(fname, page_num, context) d. add_page d fname page_num) documents []"

definition pages_str :: "int list \<Rightarrow> string" where
  "pages_str ps =
     py_join '', '' (map str_int (take 3 (sort ps)))
       @ (if length ps > 3 then '' (+'' @ str_nat (length ps - 3) @ '' more)'' else [])"

definition source_rows :: "(string \<times> int \<times> string) list \<Rightarrow> string list list" where
  "source_rows documents = map (\<lambda>(fname, ps). [fname, pages_str ps]) (unique_docs documents)"

definition generate_ui_blocks_node :: "agent_state \<Rightarrow> world \<Rightarrow> agent_state \<times> world" where
  "generate_ui_blocks_node state w =
     (let documents = relevant_documents state
      in if length documents \<ge> 2 \<and> source_rows documents \<noteq> [] then
           (let table_block =
                  Table [''Document'', ''Relevant Pages''] (source_rows documents)
                    (Some ''Sources referenced in this response'')
            in (state\<lparr>st_ui_blocks := st_ui_blocks state @ [table_block],
                      current_step := ''finalize''\<rparr>,
                add_ui_block table_block w))
         else (state\<lparr>current_step := ''finalize''\<rparr>, w))"

subsection \<open>finalize_node, the graph and run_agent\<close>

definition finalize_node :: "agent_state \<Rightarrow> world \<Rightarrow> agent_state \<times> world" where
  "finalize_node state w = (state\<lparr>current_step := ''complete''\<rparr>, handler_finish w)"

text \<open>
  One node of the graph, run on the state and the world: its result, or its exception.
  \<open>None\<close> is a node that does not return.
\<close>

fun node_body ::
  "collaborators \<Rightarrow> node \<Rightarrow> agent_state \<Rightarrow> world \<Rightarrow> ((string + agent_state) \<times> world) option" where
  "node_body co AnalyzeQuery state w = Some (analyze_query_node co state w)"
| "node_body co SearchDocuments state w =
     (case search_documents_node state w of
        None \<Rightarrow> None
      | Some (state', w') \<Rightarrow> Some (Inr state', w'))"
| "node_body co ExtractContent state w =
     (case extract_content_node state w of (state', w') \<Rightarrow> Some (Inr state', w'))"
| "node_body co SynthesizeAnswer state w = Some (synthesize_answer_node co state w)"
| "node_body co GenerateUIBlocks state w =
     (case generate_ui_blocks_node state w of (state', w') \<Rightarrow> Some (Inr state', w'))"
| "node_body co Finalize state w =
     (case finalize_node state w of (state', w') \<Rightarrow> Some (Inr state', w'))"

text \<open>
  A fault from outside strikes the node when it has published \<open>k\<close> of its events and
  has at least one more to publish: the events published are the first \<open>k\<close>, and the
  node raises. (How far the node had got with the PDF processor is not followed: the
  processor is left as the node leaves it.)
\<close>

definition interrupt ::
  "(nat \<times> string) option \<Rightarrow> world \<Rightarrow> (string + agent_state) \<times> world
     \<Rightarrow> (string + agent_state) \<times> world" where
  "interrupt fault w res =
     (case fault of
        None \<Rightarrow> res
      | Some (k, err) \<Rightarrow>
          if length (emitted w) + k < length (emitted (snd res)) then
            (Inl err, (snd res)\<lparr>emitted := take (length (emitted w) + k) (emitted (snd res))\<rparr>)
          else res)"

definition run_node ::
  "collaborators \<Rightarrow> node \<Rightarrow> agent_state \<Rightarrow> world \<Rightarrow> ((string + agent_state) \<times> world) option" where
  "run_node co n state w =
     (case node_body co n state w of
        None \<Rightarrow> None
      | Some res \<Rightarrow> Some (interrupt (node_fault co n) w res))"

text \<open>
  The compiled graph, lines 516-525: the entry point analyze_query and the chain of
  edges to END (error_node has no edge leading to it).
\<close>

definition graph_chain :: "node list" where
  "graph_chain =
     [AnalyzeQuery, SearchDocuments, ExtractContent, SynthesizeAnswer, GenerateUIBlocks,
      Finalize]"

text \<open>\<open>graph.invoke\<close> runs the nodes of the chain in order; a node that raises ends the
  run with its exception.\<close>

fun run_chain ::
  "collaborators \<Rightarrow> node list \<Rightarrow> agent_state \<Rightarrow> world
     \<Rightarrow> ((string + agent_state) \<times> world) option" where
  "run_chain co [] state w = Some (Inr state, w)"
| "run_chain co (n # ns) state w =
     (case run_node co n state w of
        None \<Rightarrow> None
      | Some (Inl err, w') \<Rightarrow> Some (Inl err, w')
      | Some (Inr state', w') \<Rightarrow> run_chain co ns state' w')"

definition graph_invoke ::
  "collaborators \<Rightarrow> agent_state \<Rightarrow> world \<Rightarrow> ((string + agent_state) \<times> world) option" where
  "graph_invoke co state w = run_chain co graph_chain state w"

definition initial_state :: "string \<Rightarrow> string \<Rightarrow> agent_state" where
  "initial_state jid q =
     \<lparr>st_messages = [], st_job_id = jid, st_query = q, relevant_documents = [],
      st_citations = [], st_ui_blocks = [], current_step = ''initial'', final_response = [],
      error_message = None\<rparr>"

text \<open>
  run_agent, lines 560-586. \<open>get_agent_graph()\<close> stands before the \<open>try\<close>: its exception
  leaves run_agent (\<open>Inl\<close>). An exception of \<open>graph.invoke\<close> is caught: the handler
  publishes the error, not recoverable, and Done (the store is taken to accept the two
  events).
\<close>

definition run_agent ::
  "collaborators \<Rightarrow> string \<Rightarrow> string \<Rightarrow> world \<Rightarrow> ((string + agent_state) \<times> world) option" where
  "run_agent co jid q w =
     (case graph_error co of
        Some err \<Rightarrow> Some (Inl err, w)
      | None \<Rightarrow>
          (case graph_invoke co (initial_state jid q) w of
             None \<Rightarrow> None
           | Some (Inr final_state, w') \<Rightarrow> Some (Inr final_state, w')
           | Some (Inl err, w') \<Rightarrow>
               Some (Inr ((initial_state jid q)\<lparr>error_message := Some err, current_step := ''error''\<rparr>),
                     handler_finish (handler_error err False w'))))"

section \<open>The worker (queue/worker.py, process_chat_job)\<close>

record job_result =
  res_status :: string
  res_response :: string
  res_citations :: "citation list"
  res_error :: "string option"

text \<open>
  process_chat_job, lines 46-74. The final state has no key \<open>error\<close> (the state's key is
  \<open>error_message\<close>), so the result of a completed job carries no error. An exception
  that leaves run_agent is reported by the worker itself: an error event, not
  recoverable, and Done.
\<close>

definition process_chat_job ::
  "collaborators \<Rightarrow> string \<Rightarrow> string \<Rightarrow> world \<Rightarrow> (job_result \<times> world) option" where
  "process_chat_job co jid q w =
     (case run_agent co jid q w of
        None \<Rightarrow> None
      | Some (Inr final_state, w') \<Rightarrow>
          Some (\<lparr>res_status = ''completed'', res_response = final_response final_state,
                 res_citations = st_citations final_state, res_error = None\<rparr>, w')
      | Some (Inl err, w') \<Rightarrow>
          Some (\<lparr>res_status = ''failed'', res_response = [], res_citations = [],
                 res_error = Some err\<rparr>,
                emit (DoneEvent None) (emit (ErrorEvent err False) w')))"

section \<open>Predicates of the statements about the stream\<close>

text \<open>A command that changes the store or publishes on a channel.\<close>

fun is_write :: "redis_cmd \<Rightarrow> bool" where
  "is_write (RPUSH k v) = True"
| "is_write (EXPIRE k t) = True"
| "is_write (SET_EX k v t) = True"
| "is_write (PUBLISH c m) = True"
| "is_write c = False"

text \<open>A buffer entry that is not a Done event: it does not decode, or it decodes to a
  dict whose \<open>event\<close> is not \<open>done\<close>.\<close>

definition not_done_entry :: "(string \<Rightarrow> json option) \<Rightarrow> string \<Rightarrow> bool" where
  "not_done_entry loads e =
     (case loads e of
        None \<Rightarrow> True
      | Some d \<Rightarrow> (case dict_get d ''event'' JNull of Inl x \<Rightarrow> False | Inr ty \<Rightarrow> ty \<noteq> JStr ''done''))"

text \<open>An iteration of the live loop with no live activity: the deadline has not passed,
  the channel has no message, and the job is not marked done.\<close>

definition quiet_tick :: "string \<Rightarrow> real \<Rightarrow> tick \<Rightarrow> bool" where
  "quiet_tick job_id start t =
     (now t - start \<le> max_wait_seconds
      \<and> (case message t of Some (Message p) \<Rightarrow> False | other \<Rightarrow> True)
      \<and> \<not> is_done (at_done t) job_id)"






text \<open>The server-sent event the endpoint makes of an event of the subscriber.\<close>

definition to_sse :: "(json \<Rightarrow> string) \<Rightarrow> json \<Rightarrow> sse" where
  "to_sse dumps d =
     \<lparr>sse_event = (case dict_get d ''event'' (JStr ''message'') of Inl x \<Rightarrow> JNull | Inr ty \<Rightarrow> ty),
      sse_data = dumps d\<rparr>"

text \<open>An event the endpoint forwards and goes on: a dict whose \<open>event\<close> is not \<open>done\<close>.\<close>

definition forwardable :: "json \<Rightarrow> bool" where
  "forwardable d = (case dict_get d ''event'' (JStr ''message'') of Inl x \<Rightarrow> False | Inr ty \<Rightarrow> ty \<noteq> JStr ''done'')"

text \<open>The store after the publisher has been handed a list of events, one call of
  publish_event for each, in order: what the methods of StreamingHandler do with the
  events of a run.\<close>

definition publish_all ::
  "(stream_event \<Rightarrow> string) \<Rightarrow> string \<Rightarrow> stream_event list \<Rightarrow> redis \<Rightarrow> redis" where
  "publish_all serialize job_id evs r = fold (publish_event serialize job_id) evs r"

section \<open>Predicates of the statements about the agent\<close>

text \<open>How the sources table shows the sorted page numbers of one document: the first
  three, and the number of the others.\<close>

definition shown_pages :: "int list \<Rightarrow> string" where
  "shown_pages sorted_pages =
     py_join '', '' (map str_int (take 3 sorted_pages))
       @ (if length sorted_pages > 3
          then '' (+'' @ str_nat (length sorted_pages - 3) @ '' more)'' else [])"

text \<open>The page numbers the sections give for one document.\<close>

definition pages_in :: "(string \<times> int \<times> string) list \<Rightarrow> string \<Rightarrow> int set" where
  "pages_in docs fname = {p. \<exists>c. (fname, p, c) \<in> set docs}"

fun is_error_event :: "stream_event \<Rightarrow> bool" where
  "is_error_event (ErrorEvent m r) = True"
| "is_error_event e = False"

text \<open>An event of a stage: neither an error nor Done.\<close>

definition stage_event :: "stream_event \<Rightarrow> bool" where
  "stage_event e = (\<not> is_error_event e \<and> \<not> is_done_event e)"

text \<open>The names of the tools the events start, in order.\<close>

fun started :: "stream_event list \<Rightarrow> string list" where
  "started [] = []"
| "started (ToolCallStartEvent ty name desc # es) = name # started es"
| "started (e # es) = started es"

text \<open>What a stage adds to the events: stage events only, starting the given tools.\<close>

definition adds :: "world \<Rightarrow> world \<Rightarrow> string list \<Rightarrow> bool" where
  "adds w w' names =
     (\<exists>new. emitted w' = emitted w @ new \<and> list_all stage_event new \<and> started new = names)"

text \<open>The tools a node starts.\<close>

fun node_tools :: "node \<Rightarrow> string list" where
  "node_tools AnalyzeQuery = [''analyze_query'']"
| "node_tools SearchDocuments = [''search_documents'']"
| "node_tools ExtractContent = [''read_pdf_page'']"
| "node_tools SynthesizeAnswer = [''synthesize_answer'']"
| "node_tools GenerateUIBlocks = []"
| "node_tools Finalize = []"

text \<open>What a node that raises has added to the events: stage events only, starting at
  most the given tools.\<close>

definition adds_part :: "world \<Rightarrow> world \<Rightarrow> string list \<Rightarrow> bool" where
  "adds_part w w' names =
     (\<exists>new. emitted w' = emitted w @ new \<and> list_all stage_event new
            \<and> prefix (started new) names)"

fun citations_of :: "stream_event list \<Rightarrow> citation list" where
  "citations_of [] = []"
| "citations_of (CitationEvent c # es) = c # citations_of es"
| "citations_of (e # es) = citations_of es"




section \<open>Sample data\<close>

text \<open>
  A small codec and a small store, used where a theorem is instantiated at a concrete
  input. The codec writes two of the events the way \<open>json.dumps\<close> does and reads them
  back.
\<close>

definition sample_serialize :: "stream_event \<Rightarrow> string" where
  \<open>sample_serialize e =
     (case e of
        TextChunkEvent c \<Rightarrow> ''{"event": "text_chunk", "content": "'' @ c @ ''"}''
      | DoneEvent t \<Rightarrow> ''{"event": "done", "total_tokens": null}''
      | other \<Rightarrow> ''{"event": "other"}'')\<close>

definition sample_loads :: "string \<Rightarrow> json option" where
  \<open>sample_loads s =
     (if s = ''{"event": "text_chunk", "content": "Hi"}''
      then Some (JDict [(''event'', JStr ''text_chunk''), (''content'', JStr ''Hi'')])
      else if s = ''{"event": "done", "total_tokens": null}''
      then Some (JDict [(''event'', JStr ''done''), (''total_tokens'', JNull)])
      else if s = ''{"event": "other"}''
      then Some (JDict [(''event'', JStr ''other'')])
      else None)\<close>

definition sample_dump :: "stream_event \<Rightarrow> json" where
  "sample_dump e =
     (case e of
        TextChunkEvent c \<Rightarrow> JDict [(''event'', JStr ''text_chunk''), (''content'', JStr c)]
      | DoneEvent t \<Rightarrow> JDict [(''event'', JStr ''done''), (''total_tokens'', JNull)]
      | other \<Rightarrow> JDict [(''event'', JStr ''other'')])"

definition sample_dumps :: "json \<Rightarrow> string" where
  \<open>sample_dumps j =
     (if j = JDict [(''event'', JStr ''text_chunk''), (''content'', JStr ''Hi'')]
      then ''{"event": "text_chunk", "content": "Hi"}''
      else if j = JDict [(''event'', JStr ''error''), (''message'', JStr ''Stream timeout''),
                        (''recoverable'', JBool False)]
      then ''{"event": "error", "message": "Stream timeout", "recoverable": false}''
      else if j = JDict [(''event'', JStr ''error''), (''message'', JStr ''Stream timeout'')]
      then ''{"event": "error", "message": "Stream timeout"}''
      else ''{}'')\<close>

text \<open>A job that has published one text chunk, and the same job after its Done event.\<close>

definition store_running :: redis where
  "store_running = publish_event sample_serialize ''j1'' (TextChunkEvent ''Hi'') empty_redis"

definition store_finished :: redis where
  "store_finished = publish_event sample_serialize ''j1'' (DoneEvent None) store_running"

text \<open>
  A consumer of the running job that sees nothing new for 301 seconds of the subscriber's
  clock (\<open>time.time()\<close>), while the endpoint's clock (the event loop's) reads 300
  seconds when the last event reaches it; the client stays connected.
\<close>

definition idle_env :: stream_env where
  "idle_env =
     \<lparr>at_attach = store_running, at_replay = store_running, start_time = 1000,
      ticks = [\<lparr>now = 1100, message = None, at_done = store_running,
                at_count = store_running, at_fetch = store_running\<rparr>,
               \<lparr>now = 1301, message = None, at_done = store_running,
                at_count = store_running, at_fetch = store_running\<rparr>]\<rparr>"

definition idle_probe :: "nat \<Rightarrow> client_probe" where
  "idle_probe i = \<lparr>disconnected = False, loop_time = (if i = 0 then 51 else 350)\<rparr>"

text \<open>A directory with one PDF of one page, and a processor that has read nothing yet.\<close>

definition sample_pdf :: pdf_file where
  "sample_pdf =
     \<lparr>can_open = True, meta_title = None, src_pages = [PageText ''Hello world. More text.''],
      file_size = 1024\<rparr>"

definition sample_processor :: processor where
  "sample_processor =
     \<lparr>pdf_directory = [(''a.pdf'', sample_pdf)], document_cache = Map.empty,
      page_text_cache = Map.empty\<rparr>"

text \<open>A text-generation service that answers every stream with one chunk, and one whose
  \<open>invoke\<close> raises; a state with the given sections; a world with no events yet.\<close>

definition sample_collaborators :: "string \<Rightarrow> (string list \<Rightarrow> string list) \<Rightarrow> collaborators" where
  "sample_collaborators reply ord =
     \<lparr>llm_create_error = None, llm_invoke = (\<lambda>m. Inr (AIMessage ''ok'')),
      llm_stream = (\<lambda>m. ([reply], None)), graph_error = None, set_order = ord,
      node_fault = (\<lambda>n. None)\<rparr>"

definition failing_collaborators :: collaborators where
  "failing_collaborators =
     \<lparr>llm_create_error = None, llm_invoke = (\<lambda>m. Inl ''quota exceeded''),
      llm_stream = (\<lambda>m. ([], None)), graph_error = None, set_order = (\<lambda>xs. xs),
      node_fault = (\<lambda>n. None)\<rparr>"

definition sample_state :: "(string \<times> int \<times> string) list \<Rightarrow> agent_state" where
  "sample_state docs = (initial_state ''j1'' ''hello'')\<lparr>relevant_documents := docs\<rparr>"

definition sample_world :: world where
  "sample_world = \<lparr>pdfs = sample_processor, emitted = []\<rparr>"

text \<open>
  A directory with two PDFs, a text-generation service whose stream delivers one chunk
  and then raises, and collaborators with a fault from outside at a given node.
\<close>

definition two_pdfs_processor :: processor where
  "two_pdfs_processor =
     \<lparr>pdf_directory =
        [(''a.pdf'', \<lparr>can_open = True, meta_title = None, src_pages = [PageText ''Hello world.''],
                     file_size = 1024\<rparr>),
         (''b.pdf'', \<lparr>can_open = True, meta_title = None, src_pages = [PageText ''Hello again.''],
                     file_size = 1024\<rparr>)],
      document_cache = Map.empty, page_text_cache = Map.empty\<rparr>"

definition stream_failing_collaborators :: collaborators where
  "stream_failing_collaborators =
     \<lparr>llm_create_error = None, llm_invoke = (\<lambda>m. Inr (AIMessage ''ok'')),
      llm_stream = (\<lambda>m. ([''Hel''], Some ''connection reset'')), graph_error = None,
      set_order = (\<lambda>xs. xs), node_fault = (\<lambda>n. None)\<rparr>"

definition two_pdfs_world :: world where
  "two_pdfs_world = \<lparr>pdfs = two_pdfs_processor, emitted = []\<rparr>"

definition faulty_collaborators :: "node \<Rightarrow> nat \<Rightarrow> string \<Rightarrow> collaborators" where
  "faulty_collaborators n k err =
     \<lparr>llm_create_error = None, llm_invoke = (\<lambda>m. Inr (AIMessage ''ok'')),
      llm_stream = (\<lambda>m. ([''See [1].''], None)), graph_error = None,
      set_order = (\<lambda>xs. xs), node_fault = (\<lambda>m. if m = n then Some (k, err) else None)\<rparr>"

text \<open>A directory whose only PDF has one page without text (a scanned page).\<close>

definition scanned_processor :: processor where
  "scanned_processor =
     \<lparr>pdf_directory =
        [(''a.pdf'', \<lparr>can_open = True, meta_title = None, src_pages = [PageEmpty],
                     file_size = 1024\<rparr>)],
      document_cache = Map.empty, page_text_cache = Map.empty\<rparr>"

section \<open>Properties of the event store and the publisher\<close>

lemma lrange_all: "lrange xs 0 (- 1) = xs"
  by (simp add: lrange_def Let_def)


lemma event_key_neq_done_key: "get_event_key a \<noteq> get_done_key b"
  by (simp add: get_event_key_def get_done_key_def)

lemma exec_log: "cmd_log (exec c r) = cmd_log r @ [c]"
  by (simp add: exec_def)

lemma append_event_log:
  "cmd_log (append_event job_id m r) =
     cmd_log r @ [RPUSH (get_event_key job_id) m, EXPIRE (get_event_key job_id) EVENT_TTL_SECONDS,
                  LLEN (get_event_key job_id)]"
  by (simp add: append_event_def Let_def exec_log)

lemma append_event_lists:
  "lists (append_event job_id m r) =
     (lists r)(get_event_key job_id := lists r (get_event_key job_id) @ [m])"
  by (simp add: append_event_def Let_def exec_def)

lemma append_event_strs: "strs (append_event job_id m r) = strs r"
  by (simp add: append_event_def Let_def exec_def)

lemma append_event_buffer:
  "get_all_events (append_event job_id m r) job_id = get_all_events r job_id @ [m]"
  by (simp add: get_all_events_def lrange_all append_event_lists)

lemma done_key_neq_event_key: "get_done_key a \<noteq> get_event_key b"
  by (simp add: get_event_key_def get_done_key_def)

lemma append_event_is_done: "is_done (append_event job_id m r) j = is_done r j"
  by (simp add: is_done_def key_exists_def append_event_lists append_event_strs
      done_key_neq_event_key)

lemma publish_is_done: "is_done (exec (PUBLISH c m) r) j = is_done r j"
  by (simp add: is_done_def key_exists_def exec_def)

lemma publish_buffer: "get_all_events (exec (PUBLISH c m) r) j = get_all_events r j"
  by (simp add: get_all_events_def exec_def)

lemma publish_lists: "lists (exec (PUBLISH c m) r) = lists r"
  by (simp add: exec_def)
lemma publish_strs: "strs (exec (PUBLISH c m) r) = strs r"
  by (simp add: exec_def)

lemma mark_done_is_done: "is_done (mark_done job_id r) job_id"
  by (simp add: is_done_def mark_done_def key_exists_def exec_def)

lemma mark_done_buffer: "get_all_events (mark_done job_id r) j = get_all_events r j"
  using event_key_neq_done_key[of j job_id]
  by (simp add: get_all_events_def mark_done_def exec_def)

lemma publish_event_events:
  "get_all_events (publish_event serialize job_id event r) job_id =
     get_all_events r job_id @ [serialize event]"
  by (simp add: publish_event_def Let_def mark_done_buffer publish_buffer append_event_buffer)

lemma publish_event_done:
  "is_done (publish_event serialize job_id event r) job_id =
     (is_done_event event \<or> is_done r job_id)"
  by (simp add: publish_event_def Let_def mark_done_is_done publish_is_done append_event_is_done)

text \<open>The events of a run reach the buffer in the order the handler was given them, and
  the job is marked done as soon as one of them is Done.\<close>

lemma publish_all_events:
  "get_all_events (publish_all serialize job_id evs r) job_id =
     get_all_events r job_id @ map serialize evs"
  by (induction evs arbitrary: r) (simp_all add: publish_all_def publish_event_events)

lemma publish_all_done:
  "is_done (publish_all serialize job_id evs r) job_id =
     (is_done r job_id \<or> list_ex is_done_event evs)"
  by (induction evs arbitrary: r) (auto simp: publish_all_def publish_event_done)

lemma store_running_lists:
  "lists store_running = (\<lambda>k. [])(''job:events:j1'' := [sample_serialize (TextChunkEvent ''Hi'')])"
  by (simp add: store_running_def publish_event_def Let_def append_event_def exec_def
      empty_redis_def get_event_key_def)

lemma store_running_strs: "strs store_running = (\<lambda>k. None)"
  by (simp add: store_running_def publish_event_def Let_def append_event_def exec_def
      empty_redis_def key_exists_def)

lemma store_finished_lists:
  "lists store_finished = (\<lambda>k. [])(''job:events:j1'' :=
      [sample_serialize (TextChunkEvent ''Hi''), sample_serialize (DoneEvent None)])"
  by (simp add: store_finished_def publish_event_def Let_def append_event_def exec_def
      get_event_key_def get_done_key_def mark_done_def store_running_lists fun_eq_iff)

lemma store_finished_strs:
  "strs store_finished = (\<lambda>k. None)(''job:done:j1'' := Some ''1'')"
  by (simp add: store_finished_def publish_event_def Let_def append_event_def exec_def
      get_event_key_def get_done_key_def mark_done_def store_running_strs key_exists_def)

text \<open>
  Claim C3. For every event, \<open>publish_event\<close> issues the RPUSH of the serialized event
  on the job's buffer before the PUBLISH on the job's channel: the commands it adds to
  the log are, in order, RPUSH, EXPIRE, LLEN, PUBLISH and, for a Done event, the SET of
  the done marker. The store on which the PUBLISH runs already holds the event as the
  last entry of the buffer, and so does the store the call returns. After the call for a
  Done event \<open>is_done\<close> is true; for any other event the marker is as it was.
\<close>

theorem publish_event_buffer_before_broadcast:
  "cmd_log (publish_event serialize job_id event r) =
     cmd_log r @
       [RPUSH (get_event_key job_id) (serialize event),
        EXPIRE (get_event_key job_id) EVENT_TTL_SECONDS,
        LLEN (get_event_key job_id),
        PUBLISH (get_channel_name job_id) (serialize event)] @
       (if is_done_event event
        then [SET_EX (get_done_key job_id) ''1'' EVENT_TTL_SECONDS] else [])
   \<and> get_all_events (append_event job_id (serialize event) r) job_id =
       get_all_events r job_id @ [serialize event]
   \<and> get_all_events (publish_event serialize job_id event r) job_id =
       get_all_events r job_id @ [serialize event]
   \<and> is_done (publish_event serialize job_id event r) job_id =
       (if is_done_event event then True else is_done r job_id)"
proof (intro conjI)
  show "cmd_log (publish_event serialize job_id event r) =
     cmd_log r @
       [RPUSH (get_event_key job_id) (serialize event),
        EXPIRE (get_event_key job_id) EVENT_TTL_SECONDS,
        LLEN (get_event_key job_id),
        PUBLISH (get_channel_name job_id) (serialize event)] @
       (if is_done_event event
        then [SET_EX (get_done_key job_id) ''1'' EVENT_TTL_SECONDS] else [])"
    by (simp add: publish_event_def Let_def append_event_log exec_log mark_done_def)
  show "get_all_events (append_event job_id (serialize event) r) job_id =
       get_all_events r job_id @ [serialize event]"
    by (rule append_event_buffer)
  show "get_all_events (publish_event serialize job_id event r) job_id =
       get_all_events r job_id @ [serialize event]"
    by (simp add: publish_event_def Let_def mark_done_buffer publish_buffer append_event_buffer)
  show "is_done (publish_event serialize job_id event r) job_id =
       (if is_done_event event then True else is_done r job_id)"
    by (simp add: publish_event_def Let_def mark_done_is_done publish_is_done
        append_event_is_done)
qed

theorem publish_event_buffer_before_broadcast_witness:
  "cmd_log store_finished =
     cmd_log store_running @
       [RPUSH ''job:events:j1'' (sample_serialize (DoneEvent None)),
        EXPIRE ''job:events:j1'' 600, LLEN ''job:events:j1'',
        PUBLISH ''chat:stream:j1'' (sample_serialize (DoneEvent None)),
        SET_EX ''job:done:j1'' ''1'' 600]
   \<and> is_done store_finished ''j1''"
  using publish_event_buffer_before_broadcast
          [of sample_serialize "''j1''" "DoneEvent None" store_running]
  by (simp add: store_finished_def get_event_key_def get_done_key_def get_channel_name_def
      EVENT_TTL_SECONDS_def)

section \<open>Properties of the subscriber\<close>


lemma replay_all_map:
  "\<forall>e\<in>set evs. loads (ser e) = Some (dump e) \<Longrightarrow> replay_all loads (map ser evs) = map dump evs"
  by (induction evs) auto

text \<open>
  Claim C1. When the done marker is set at the moment the consumer attaches,
  \<open>stream_events\<close> yields what the buffer holds, in buffer order, each entry once
  (an entry that does not decode is skipped), and returns: it issues the done check and
  one read of the whole buffer, never subscribes and never reads a tick of the live loop.
  When the buffer holds the serialized events \<open>evs\<close> of the producer, and these decode,
  the events yielded are exactly \<open>evs\<close>, decoded, in order.
\<close>

theorem finished_job_is_replayed_in_full:
  assumes "is_done (at_attach env) job_id"
  shows "stream_events loads job_id env =
           \<lparr>yielded = replay_all loads (get_all_events (at_replay env) job_id),
            issued = [EXISTS (get_done_key job_id), LRANGE (get_event_key job_id) 0 (- 1)],
            status = Returned\<rparr>
         \<and> (get_all_events (at_replay env) job_id = map serialize evs
              \<and> (\<forall>e\<in>set evs. loads (serialize e) = Some (dump e))
            \<longrightarrow> yielded (stream_events loads job_id env) = map dump evs)"
  using assms by (auto simp: stream_events_def replay_all_map)

theorem finished_job_is_replayed_in_full_witness:
  "is_done store_finished ''j1''
   \<and> stream_events sample_loads ''j1''
        \<lparr>at_attach = store_finished, at_replay = store_finished, start_time = 0, ticks = []\<rparr> =
       \<lparr>yielded = [JDict [(''event'', JStr ''text_chunk''), (''content'', JStr ''Hi'')],
                   JDict [(''event'', JStr ''done''), (''total_tokens'', JNull)]],
        issued = [EXISTS ''job:done:j1'', LRANGE ''job:events:j1'' 0 (- 1)],
        status = Returned\<rparr>"
proof -
  have d: "is_done store_finished ''j1''"
    by (simp add: is_done_def key_exists_def store_finished_strs get_done_key_def)
  have b: "get_all_events store_finished ''j1'' =
      [sample_serialize (TextChunkEvent ''Hi''), sample_serialize (DoneEvent None)]"
    by (simp add: get_all_events_def lrange_all store_finished_lists get_event_key_def)
  let ?env = "\<lparr>at_attach = store_finished, at_replay = store_finished, start_time = 0, ticks = []\<rparr>"
  let ?evs = "[TextChunkEvent ''Hi'', DoneEvent None]"
  have a: "is_done (at_attach ?env) ''j1''" using d by simp
  have e: "get_all_events (at_replay ?env) ''j1'' = map sample_serialize ?evs
           \<and> (\<forall>e\<in>set ?evs. sample_loads (sample_serialize e) = Some (sample_dump e))"
    by (simp add: b sample_serialize_def sample_loads_def sample_dump_def)
  from finished_job_is_replayed_in_full[OF a, where loads = sample_loads and dump = sample_dump
      and serialize = sample_serialize and evs = ?evs] e
  have "stream_events sample_loads ''j1'' ?env =
           \<lparr>yielded = replay_all sample_loads (get_all_events (at_replay ?env) ''j1''),
            issued = [EXISTS (get_done_key ''j1''), LRANGE (get_event_key ''j1'') 0 (- 1)],
            status = Returned\<rparr>"
    and "yielded (stream_events sample_loads ''j1'' ?env) = map sample_dump ?evs"
    by blast+
  then show ?thesis
    using d by (simp add: sample_dump_def get_done_key_def get_event_key_def)
qed






lemma dict_get_Inr: "dict_get d k dflt = Inr ty \<Longrightarrow> \<exists>kvs. d = JDict kvs"
  by (cases d) auto












section \<open>Properties of the timeout of the stream\<close>

lemma replay_buffered_plain:
  "list_all (not_done_entry loads) es \<Longrightarrow>
   replay_buffered loads es n = (replay_all loads es, n + length es, Next)"
  by (induction es arbitrary: n)
     (auto simp: not_done_entry_def split: option.splits sum.splits)

lemma live_loop_quiet:
  "list_all (quiet_tick job_id st) ts \<Longrightarrow>
   live_loop loads job_id st (ts @ rest) n =
     after_tick [] (concat (map (\<lambda>t. [GET_MESSAGE, EXISTS (get_done_key job_id)]) ts))
       (live_loop loads job_id st rest n)"
proof (induction ts)
  case Nil
  show ?case by (simp add: after_tick_def split: prod.splits)
next
  case (Cons t ts)
  then have q: "quiet_tick job_id st t" and r: "list_all (quiet_tick job_id st) ts" by auto
  from q have "live_loop loads job_id st (t # (ts @ rest)) n =
      after_tick [] [GET_MESSAGE, EXISTS (get_done_key job_id)]
        (live_loop loads job_id st (ts @ rest) n)"
    by (auto simp: quiet_tick_def split: option.splits pubsub_message.splits)
  then show ?case using Cons.IH[OF r]
    by (simp add: after_tick_def split: prod.splits)
qed

lemma live_loop_deadline:
  "now t - st > max_wait_seconds \<Longrightarrow>
   live_loop loads job_id st [t] n = ([timeout_event], [], Returned)"
  by simp

lemma idle_subscriber:
  assumes "\<not> is_done (at_attach env) job_id"
    and "list_all (not_done_entry loads) (get_all_events (at_replay env) job_id)"
    and "ticks env = quiet @ [final]"
    and "list_all (quiet_tick job_id (start_time env)) quiet"
    and "now final - start_time env > max_wait_seconds"
  shows "stream_events loads job_id env =
     \<lparr>yielded = replay_all loads (get_all_events (at_replay env) job_id) @ [timeout_event],
      issued = [EXISTS (get_done_key job_id), SUBSCRIBE (get_channel_name job_id),
                LRANGE (get_event_key job_id) 0 (- 1)]
               @ concat (map (\<lambda>t. [GET_MESSAGE, EXISTS (get_done_key job_id)]) quiet)
               @ [UNSUBSCRIBE (get_channel_name job_id), PUBSUB_CLOSE],
      status = Returned\<rparr>"
proof -
  have l: "live_loop loads job_id (start_time env) (ticks env)
             (0 + length (get_all_events (at_replay env) job_id)) =
           ([timeout_event],
            concat (map (\<lambda>t. [GET_MESSAGE, EXISTS (get_done_key job_id)]) quiet), Returned)"
    unfolding assms(3) live_loop_quiet[OF assms(4)] live_loop_deadline[OF assms(5)]
    by (simp add: after_tick_def)
  show ?thesis
    using assms(1) l
    by (simp add: stream_events_def Let_def replay_buffered_plain[OF assms(2)] finally_cmds_def
        del: live_loop.simps)
qed

lemma read_only_cmd: "\<not> is_write c \<Longrightarrow> apply_cmd c r = r"
  by (cases c) simp_all

lemma read_only_cmds: "list_all (\<lambda>c. \<not> is_write c) cs \<Longrightarrow> fold apply_cmd cs r = r"
  by (induction cs) (simp_all add: read_only_cmd)

lemma quiet_cmds_read_only:
  "list_all (\<lambda>c. \<not> is_write c) (concat (map (\<lambda>t. [GET_MESSAGE, EXISTS k]) ts))"
  by (induction ts) simp_all

lemma replay_all_forwardable:
  "list_all (not_done_entry loads) es \<Longrightarrow> list_all forwardable (replay_all loads es)"
proof (induction es)
  case Nil
  show ?case by simp
next
  case (Cons e es)
  show ?case
  proof (cases "loads e")
    case None
    then show ?thesis using Cons by simp
  next
    case (Some d)
    with Cons.prems have "forwardable d"
      by (cases d) (auto simp: not_done_entry_def forwardable_def split: option.splits)
    then show ?thesis using Cons Some by simp
  qed
qed

lemma forward_until_timeout:
  assumes "list_all forwardable es"
    and "\<forall>j. i \<le> j \<and> j \<le> i + length es \<longrightarrow> \<not> disconnected (probe j)"
    and "loop_time (probe (i + length es)) - api_start > timeout_seconds"
  shows "\<exists>k\<le>length es. forward_events dumps api_start probe i (es @ [x]) =
           (map (to_sse dumps) (take k es) @ [error_sse dumps ''Stream timeout''], Stop)"
  using assms
proof (induction es arbitrary: i)
  case Nil
  then show ?case by simp
next
  case (Cons e es)
  have conn: "\<not> disconnected (probe i)" using Cons.prems(2) by simp
  show ?case
  proof (cases "loop_time (probe i) - api_start > timeout_seconds")
    case True
    show ?thesis by (rule exI[of _ 0]) (use True conn in simp)
  next
    case False
    from Cons.prems(1) have fe: "forwardable e" and fes: "list_all forwardable es" by auto
    from fe obtain ty where ty: "dict_get e ''event'' (JStr ''message'') = Inr ty" "ty \<noteq> JStr ''done''"
      by (auto simp: forwardable_def split: sum.splits)
    have "\<forall>j. i + 1 \<le> j \<and> j \<le> i + 1 + length es \<longrightarrow> \<not> disconnected (probe j)"
      using Cons.prems(2) by simp
    moreover have "loop_time (probe (i + 1 + length es)) - api_start > timeout_seconds"
      using Cons.prems(3) by simp
    ultimately obtain k where k: "k \<le> length es"
      "forward_events dumps api_start probe (i + 1) (es @ [x]) =
           (map (to_sse dumps) (take k es) @ [error_sse dumps ''Stream timeout''], Stop)"
      using Cons.IH[OF fes, of "i + 1"] by blast
    show ?thesis
      by (rule exI[of _ "Suc k"]) (use k ty conn False in \<open>simp add: to_sse_def\<close>)
  qed
qed

text \<open>
  A stream with no Done event and no live activity until the deadline: the job is not
  done when the consumer attaches, the buffer holds no Done event, every iteration of
  the live loop but the last is quiet, and at the last one more than 300 seconds have
  passed on the subscriber's clock. The subscriber yields the replayed events and its
  timeout event, and returns; the commands it issued are all reads, and run on any store
  they leave it as it was. When the endpoint's own clock has passed its 300 seconds too
  by the time the timeout event reaches it, the endpoint sends its own error event, with
  \<open>recoverable\<close> false, in its place.
\<close>

lemma endpoint_replaces_timeout_event:
  assumes "\<not> is_done (at_attach env) job_id"
    and "list_all (not_done_entry loads) (get_all_events (at_replay env) job_id)"
    and "ticks env = quiet @ [final]"
    and "list_all (quiet_tick job_id (start_time env)) quiet"
    and "now final - start_time env > max_wait_seconds"
    and "\<forall>i\<le>length (replay_all loads (get_all_events (at_replay env) job_id)).
           \<not> disconnected (probe i)"
    and "loop_time (probe (length (replay_all loads (get_all_events (at_replay env) job_id))))
           - api_start > timeout_seconds"
  shows "status (stream_events loads job_id env) = Returned
       \<and> list_all (\<lambda>c. \<not> is_write c) (issued (stream_events loads job_id env))
       \<and> fold apply_cmd (issued (stream_events loads job_id env)) r = r
       \<and> (\<exists>k\<le>length (replay_all loads (get_all_events (at_replay env) job_id)).
            event_generator dumps api_start probe (stream_events loads job_id env) =
              \<lparr>sse_sent =
                 map (to_sse dumps)
                   (take k (replay_all loads (get_all_events (at_replay env) job_id)))
                 @ [\<lparr>sse_event = JStr ''error'',
                      sse_data = dumps (JDict [(''event'', JStr ''error''),
                                               (''message'', JStr ''Stream timeout''),
                                               (''recoverable'', JBool False)])\<rparr>],
               finished = True\<rparr>)"
proof -
  let ?replayed = "replay_all loads (get_all_events (at_replay env) job_id)"
  note sub = idle_subscriber[OF assms(1-5)]
  have ro: "list_all (\<lambda>c. \<not> is_write c) (issued (stream_events loads job_id env))"
    by (simp add: sub quiet_cmds_read_only)
  have fw: "list_all forwardable ?replayed"
    by (rule replay_all_forwardable[OF assms(2)])
  from forward_until_timeout[OF fw, of 0 probe api_start dumps timeout_event] assms(6,7)
  obtain k where k: "k \<le> length ?replayed"
    "forward_events dumps api_start probe 0 (?replayed @ [timeout_event]) =
       (map (to_sse dumps) (take k ?replayed) @ [error_sse dumps ''Stream timeout''], Stop)"
    by auto
  have "event_generator dumps api_start probe (stream_events loads job_id env) =
      \<lparr>sse_sent = map (to_sse dumps) (take k ?replayed) @ [error_sse dumps ''Stream timeout''],
       finished = True\<rparr>"
    by (simp add: event_generator_def sub k(2))
  then show ?thesis
    using k(1) ro read_only_cmds[OF ro] sub
    by (auto simp: error_sse_def error_payload_def)
qed

lemma forward_all:
  assumes "list_all forwardable es"
    and "\<forall>j. i \<le> j \<and> j < i + length es \<longrightarrow>
           \<not> disconnected (probe j) \<and> \<not> loop_time (probe j) - api_start > timeout_seconds"
  shows "forward_events dumps api_start probe i es = (map (to_sse dumps) es, Next)"
  using assms
proof (induction es arbitrary: i)
  case Nil
  show ?case by simp
next
  case (Cons e es)
  from Cons.prems(1) have fe: "forwardable e" and fes: "list_all forwardable es" by auto
  from fe obtain ty where ty: "dict_get e ''event'' (JStr ''message'') = Inr ty" "ty \<noteq> JStr ''done''"
    by (auto simp: forwardable_def split: sum.splits)
  have here: "\<not> disconnected (probe i)" "\<not> loop_time (probe i) - api_start > timeout_seconds"
    using Cons.prems(2) by simp_all
  have "\<forall>j. i + 1 \<le> j \<and> j < i + 1 + length es \<longrightarrow>
           \<not> disconnected (probe j) \<and> \<not> loop_time (probe j) - api_start > timeout_seconds"
    using Cons.prems(2) by simp
  from Cons.IH[OF fes this]
  have "forward_events dumps api_start probe (i + 1) es = (map (to_sse dumps) es, Next)" .
  then show ?case using ty here by (simp add: to_sse_def)
qed

lemma timeout_event_forwardable: "forwardable timeout_event"
  by (simp add: forwardable_def timeout_event_def)

text \<open>
  While the endpoint's own clock has not passed its 300 seconds, it forwards the
  subscriber's timeout event as it is.
\<close>

lemma endpoint_forwards_timeout_event:
  assumes "\<not> is_done (at_attach env) job_id"
    and "list_all (not_done_entry loads) (get_all_events (at_replay env) job_id)"
    and "ticks env = quiet @ [final]"
    and "list_all (quiet_tick job_id (start_time env)) quiet"
    and "now final - start_time env > max_wait_seconds"
    and "\<forall>i\<le>length (replay_all loads (get_all_events (at_replay env) job_id)).
           \<not> disconnected (probe i) \<and> \<not> loop_time (probe i) - api_start > timeout_seconds"
  shows "event_generator dumps api_start probe (stream_events loads job_id env) =
           \<lparr>sse_sent =
              map (to_sse dumps) (replay_all loads (get_all_events (at_replay env) job_id))
              @ [\<lparr>sse_event = JStr ''error'',
                   sse_data = dumps (JDict [(''event'', JStr ''error''),
                                            (''message'', JStr ''Stream timeout'')])\<rparr>],
            finished = True\<rparr>"
proof -
  let ?replayed = "replay_all loads (get_all_events (at_replay env) job_id)"
  note sub = idle_subscriber[OF assms(1-5)]
  have fw: "list_all forwardable (?replayed @ [timeout_event])"
    using replay_all_forwardable[OF assms(2)] timeout_event_forwardable by simp
  have "forward_events dumps api_start probe 0 (?replayed @ [timeout_event]) =
      (map (to_sse dumps) (?replayed @ [timeout_event]), Next)"
    by (rule forward_all[OF fw]) (use assms(6) in simp)
  then show ?thesis
    by (simp add: event_generator_def sub to_sse_def timeout_event_def)
qed

lemma idle_env_runs:
  "stream_events sample_loads ''j1'' idle_env =
     \<lparr>yielded = [JDict [(''event'', JStr ''text_chunk''), (''content'', JStr ''Hi'')],
                 JDict [(''event'', JStr ''error''), (''message'', JStr ''Stream timeout'')]],
      issued = [EXISTS ''job:done:j1'', SUBSCRIBE ''chat:stream:j1'',
                LRANGE ''job:events:j1'' 0 (- 1), GET_MESSAGE, EXISTS ''job:done:j1'',
                UNSUBSCRIBE ''chat:stream:j1'', PUBSUB_CLOSE],
      status = Returned\<rparr>"
proof -
  let ?q = "\<lparr>now = 1100, message = None, at_done = store_running, at_count = store_running,
         at_fetch = store_running\<rparr>"
  let ?f = "\<lparr>now = 1301, message = None, at_done = store_running,
                     at_count = store_running, at_fetch = store_running\<rparr>"
  have nd: "\<not> is_done store_running ''j1''"
    by (simp add: is_done_def key_exists_def store_running_strs store_running_lists
        get_done_key_def)
  have b: "get_all_events store_running ''j1'' = [sample_serialize (TextChunkEvent ''Hi'')]"
    by (simp add: get_all_events_def lrange_all store_running_lists get_event_key_def)
  have h1: "\<not> is_done (at_attach idle_env) ''j1''" using nd by (simp add: idle_env_def)
  have h2: "list_all (not_done_entry sample_loads) (get_all_events (at_replay idle_env) ''j1'')"
    by (simp add: idle_env_def b not_done_entry_def sample_loads_def sample_serialize_def)
  have h3: "ticks idle_env = [?q] @ [?f]" by (simp add: idle_env_def)
  have h4: "list_all (quiet_tick ''j1'' (start_time idle_env)) [?q]"
    using nd by (simp add: idle_env_def quiet_tick_def max_wait_seconds_def)
  have h5: "now ?f - start_time idle_env > max_wait_seconds"
    by (simp add: idle_env_def max_wait_seconds_def)
  have rp: "replay_all sample_loads (get_all_events (at_replay idle_env) ''j1'') =
      [JDict [(''event'', JStr ''text_chunk''), (''content'', JStr ''Hi'')]]"
    by (simp add: idle_env_def b sample_loads_def sample_serialize_def)
  show ?thesis
    unfolding idle_subscriber[OF h1 h2 h3 h4 h5] rp
    by (simp add: timeout_event_def get_done_key_def get_channel_name_def get_event_key_def)
qed

text \<open>
  Claim C4 at the failing input. The job has published one text chunk and then nothing;
  the consumer waits, and at the iteration where 301 seconds have passed on the
  subscriber's clock the subscriber yields its timeout event and returns, having issued
  only reads. That event is the stream's only error event and its last event, but it has
  no \<open>recoverable\<close> key, where the claim has the flag false. The endpoint, whose own
  clock reads 300 seconds at that moment, forwards it as it is.
\<close>

theorem idle_stream_ends_without_recoverable_flag:
  \<open>stream_events sample_loads ''j1'' idle_env =
     \<lparr>yielded = [JDict [(''event'', JStr ''text_chunk''), (''content'', JStr ''Hi'')],
                 JDict [(''event'', JStr ''error''), (''message'', JStr ''Stream timeout'')]],
      issued = [EXISTS ''job:done:j1'', SUBSCRIBE ''chat:stream:j1'',
                LRANGE ''job:events:j1'' 0 (- 1), GET_MESSAGE, EXISTS ''job:done:j1'',
                UNSUBSCRIBE ''chat:stream:j1'', PUBSUB_CLOSE],
      status = Returned\<rparr>
   \<and> dict_get (last (yielded (stream_events sample_loads ''j1'' idle_env)))
        ''recoverable'' (JStr ''no such key'') = Inr (JStr ''no such key'')
   \<and> event_generator sample_dumps 50 idle_probe (stream_events sample_loads ''j1'' idle_env) =
       \<lparr>sse_sent =
          [\<lparr>sse_event = JStr ''text_chunk'',
            sse_data = ''{"event": "text_chunk", "content": "Hi"}''\<rparr>,
           \<lparr>sse_event = JStr ''error'',
            sse_data = ''{"event": "error", "message": "Stream timeout"}''\<rparr>],
        finished = True\<rparr>\<close>
  unfolding idle_env_runs
  by (simp add: event_generator_def idle_probe_def timeout_seconds_def sample_dumps_def)

theorem idle_stream_ends_without_recoverable_flag_witness:
  \<open>sse_data (last (sse_sent (event_generator sample_dumps 50 idle_probe
       (stream_events sample_loads ''j1'' idle_env)))) =
     ''{"event": "error", "message": "Stream timeout"}''\<close>
proof -
  from idle_stream_ends_without_recoverable_flag
  have \<open>event_generator sample_dumps 50 idle_probe (stream_events sample_loads ''j1'' idle_env) =
       \<lparr>sse_sent =
          [\<lparr>sse_event = JStr ''text_chunk'',
            sse_data = ''{"event": "text_chunk", "content": "Hi"}''\<rparr>,
           \<lparr>sse_event = JStr ''error'',
            sse_data = ''{"event": "error", "message": "Stream timeout"}''\<rparr>],
        finished = True\<rparr>\<close>
    by blast
  then show ?thesis by simp
qed

section \<open>Properties of the PDF processor\<close>

lemma chunk_step_advance:
  assumes "1 \<le> chunk_size" "overlap \<le> chunk_size div 2"
  shows "snd (chunk_step t chunk_size start) - overlap - start > chunk_size div 2 - overlap"
    and "snd (chunk_step t chunk_size start) - overlap \<ge> start + 1"
proof -
  have "snd (chunk_step t chunk_size start) = start + chunk_size
        \<or> snd (chunk_step t chunk_size start) > start + chunk_size div 2 + 1"
    by (auto simp: chunk_step_def Let_def)
  moreover have "chunk_size > chunk_size div 2" using assms(1) by simp
  ultimately show "snd (chunk_step t chunk_size start) - overlap - start > chunk_size div 2 - overlap"
    by auto
  then show "snd (chunk_step t chunk_size start) - overlap \<ge> start + 1"
    using assms(2) by simp
qed

lemma chunk_loop_returns:
  assumes "1 \<le> chunk_size" "overlap \<le> chunk_size div 2"
  shows "\<exists>r. chunk_loop t chunk_size overlap page_no start chunks = Some r"
proof (induction "nat (int (length t) - start)" arbitrary: start chunks rule: less_induct)
  case less
  show ?case
  proof (cases "start < int (length t)")
    case False
    then show ?thesis by (subst chunk_loop.simps) simp
  next
    case True
    let ?start' = "snd (chunk_step t chunk_size start) - overlap"
    have "?start' \<ge> start + 1" by (rule chunk_step_advance(2)[OF assms])
    with True have "nat (int (length t) - ?start') < nat (int (length t) - start)" by simp
    from less[OF this] obtain r where
      "chunk_loop t chunk_size overlap page_no ?start'
         (chunks @ [(page_no, py_strip (fst (chunk_step t chunk_size start)))]) = Some r"
      by blast
    then show ?thesis using True by (subst chunk_loop.simps) simp
  qed
qed

lemma chunk_pages_returns:
  assumes "1 \<le> chunk_size" "overlap \<le> chunk_size div 2"
  shows "\<exists>r. chunk_pages ps chunk_size overlap chunks = Some r"
proof (induction ps arbitrary: chunks)
  case Nil
  show ?case by simp
next
  case (Cons p ps)
  show ?case
  proof (cases "page_text p = []")
    case True
    then show ?thesis using Cons by simp
  next
    case False
    from chunk_loop_returns[OF assms] obtain c where
      "chunk_loop (page_text p) chunk_size overlap (page_number p) 0 chunks = Some c" by blast
    then show ?thesis using False Cons[of c] by simp
  qed
qed

lemma get_semantic_chunks_returns:
  assumes "1 \<le> chunk_size" "overlap \<le> chunk_size div 2"
  shows "\<exists>chunks s'. get_semantic_chunks filename chunk_size overlap s = Some (chunks, s')"
proof (cases "extract_document filename True s")
  case (Pair d s')
  show ?thesis
  proof (cases d)
    case None
    then show ?thesis using Pair by (simp add: get_semantic_chunks_def)
  next
    case (Some document)
    from chunk_pages_returns[OF assms] obtain c where
      "chunk_pages (pages document) chunk_size overlap [] = Some c" by blast
    then show ?thesis using Pair Some by (simp add: get_semantic_chunks_def)
  qed
qed

text \<open>
  Claim C10, as amended. For every document and all parameters with
  \<open>chunk_size \<ge> 1\<close>, \<open>overlap \<ge> 0\<close> and \<open>overlap \<le> chunk_size div 2\<close>,
  get_semantic_chunks returns. Each iteration of its loop moves the start of the chunk
  forward by at least one character: a cut at a sentence boundary is taken only past
  the middle of the chunk, so the advance is greater than
  \<open>chunk_size div 2 - overlap\<close>, which is not negative.
\<close>

theorem get_semantic_chunks_terminates:
  assumes "1 \<le> chunk_size" "0 \<le> overlap" "overlap \<le> chunk_size div 2"
  shows "(\<exists>chunks s'. get_semantic_chunks filename chunk_size overlap s = Some (chunks, s'))
       \<and> snd (chunk_step t chunk_size start) - overlap \<ge> start + 1
       \<and> snd (chunk_step t chunk_size start) - overlap - start > chunk_size div 2 - overlap
       \<and> chunk_size div 2 - overlap \<ge> 0"
  using get_semantic_chunks_returns[OF assms(1,3)] chunk_step_advance[OF assms(1,3)] assms(3)
  by simp

lemma sample_document:
  "extract_document ''a.pdf'' True sample_processor =
     (Some \<lparr>doc_filename = ''a.pdf'', doc_metadata = make_metadata ''a.pdf'' sample_pdf,
            pages = [make_page 1 ''Hello world. More text.'']\<rparr>,
      sample_processor
        \<lparr>page_text_cache := cache_page Map.empty ''a.pdf'' 1 ''Hello world. More text.'',
         document_cache := Map.empty(''a.pdf'' \<mapsto>
            \<lparr>doc_filename = ''a.pdf'', doc_metadata = make_metadata ''a.pdf'' sample_pdf,
             pages = [make_page 1 ''Hello world. More text.'']\<rparr>)\<rparr>)"
  by (simp add: extract_document_def sample_processor_def get_pdf_path_def sample_pdf_def
      path_suffix_def py_lower_def lower_char_def Let_def)

lemma sample_chunk_step: "chunk_step ''Hello world. More text.'' 1000 0 = (''Hello world. More text.'', 1000)"
  by (simp add: chunk_step_def Let_def py_slice_def slice_bound_def)

theorem get_semantic_chunks_terminates_witness:
  "(1::int) \<le> 1000 \<and> (0::int) \<le> 100 \<and> (100::int) \<le> 1000 div 2
   \<and> map_option fst (get_semantic_chunks ''a.pdf'' 1000 100 sample_processor) =
       Some [(1, ''Hello world. More text.'')]"
proof -
  have l: "chunk_loop ''Hello world. More text.'' 1000 100 1 0 [] =
             Some [(1, ''Hello world. More text.'')]"
    apply (subst chunk_loop.simps)
    apply (simp add: sample_chunk_step)
    apply (subst chunk_loop.simps)
    apply (simp add: py_strip_def py_isspace_def)
    done
  have "map_option fst (get_semantic_chunks ''a.pdf'' 1000 100 sample_processor) =
       Some [(1, ''Hello world. More text.'')]"
    by (simp add: get_semantic_chunks_def sample_document make_page_def l)
  with get_semantic_chunks_terminates[where chunk_size = 1000 and overlap = 100
      and filename = "''a.pdf''" and s = sample_processor and t = "''x''" and start = 0]
  show ?thesis by simp
qed

lemma chunk_loop_zero_diverges:
  assumes "chunk_loop t chunk_size overlap page_no start chunks = Some r"
  shows "\<not> (t = ''x'' \<and> chunk_size = 0 \<and> overlap = 0 \<and> start = 0)"
proof (rule chunk_loop.raw_induct
    [where P = "\<lambda>t cs ov pn st ch r. \<not> (t = ''x'' \<and> cs = 0 \<and> ov = 0 \<and> st = 0)", OF _ assms])
  fix loop :: "string \<Rightarrow> int \<Rightarrow> int \<Rightarrow> int \<Rightarrow> int \<Rightarrow> (int \<times> string) list \<Rightarrow> (int \<times> string) list option"
    and t cs ov pn st ch r
  assume IH: "\<And>t cs ov pn st ch y. loop t cs ov pn st ch = Some y \<Longrightarrow>
                \<not> (t = ''x'' \<and> cs = 0 \<and> ov = 0 \<and> st = 0)"
    and step: "(if st < int (length t)
                then loop t cs ov pn (snd (chunk_step t cs st) - ov)
                       (ch @ [(pn, py_strip (fst (chunk_step t cs st)))])
                else Some ch) = Some r"
  show "\<not> (t = ''x'' \<and> cs = 0 \<and> ov = 0 \<and> st = 0)"
  proof
    assume bad: "t = ''x'' \<and> cs = 0 \<and> ov = 0 \<and> st = 0"
    then have "snd (chunk_step t cs st) - ov = 0"
      by (simp add: chunk_step_def Let_def py_slice_def slice_bound_def py_rfind_def
          matches_at_def)
    with step bad have
      "loop ''x'' 0 0 pn 0 (ch @ [(pn, py_strip (fst (chunk_step t cs st)))]) = Some r"
      by simp
    from IH[OF this] show False by simp
  qed
qed

text \<open>
  Claim C10 as stated fails: \<open>chunk_size = 0\<close> and \<open>overlap = 0\<close> satisfy
  \<open>overlap \<ge> 0\<close> and \<open>overlap \<le> chunk_size div 2\<close>, and on a page with the text
  \<open>x\<close> the loop never moves: get_semantic_chunks does not return.
\<close>

theorem zero_chunk_size_never_returns:
  "(0::int) \<le> 0 \<and> (0::int) \<le> 0 div 2
   \<and> get_semantic_chunks ''a.pdf'' 0 0
        \<lparr>pdf_directory =
           [(''a.pdf'', \<lparr>can_open = True, meta_title = None, src_pages = [PageText ''x''],
                        file_size = 1\<rparr>)],
         document_cache = Map.empty, page_text_cache = Map.empty\<rparr> = None"
proof -
  have "chunk_loop ''x'' 0 0 1 0 [] = None"
    using chunk_loop_zero_diverges[of "''x''" 0 0 1 0 "[]"] by (cases "chunk_loop ''x'' 0 0 1 0 []") auto
  then show ?thesis
    by (simp add: get_semantic_chunks_def extract_document_def get_pdf_path_def
        path_suffix_def py_lower_def lower_char_def Let_def make_page_def)
qed

text \<open>
  Without a cached text for the page, extract_page answers from the directory alone:
  \<open>None\<close> for a missing file or a page out of range, a page only for a page in range
  of a file that exists.
\<close>

lemma extract_page_uncached_none:
  assumes "cached_page_text s filename n = None"
    and "get_pdf_path s filename = None
         \<or> (\<exists>f. get_pdf_path s filename = Some f \<and> (n < 1 \<or> n > int (length (src_pages f))))"
  shows "fst (extract_page filename n s) = None"
  using assms by (auto simp: extract_page_def)

lemma extract_page_uncached_some:
  assumes "cached_page_text s filename n = None"
    and "fst (extract_page filename n s) = Some p"
  shows "\<exists>f. get_pdf_path s filename = Some f \<and> can_open f \<and> 1 \<le> n
             \<and> n \<le> int (length (src_pages f))
             \<and> p = make_page n (text_or_empty (src_pages f ! nat (n - 1)))"
  using assms
  by (auto simp: extract_page_def split: option.splits if_splits page_src.splits)

lemma sample_page_read:
  "extract_page ''a.pdf'' 1 sample_processor =
     (Some (make_page 1 ''Hello world. More text.''),
      sample_processor\<lparr>page_text_cache :=
         cache_page Map.empty ''a.pdf'' 1 ''Hello world. More text.''\<rparr>)"
  by (simp add: extract_page_def cached_page_text_def sample_processor_def get_pdf_path_def
      sample_pdf_def path_suffix_def py_lower_def lower_char_def)

lemma sample_delete:
  "delete_pdf ''a.pdf'' (snd (extract_page ''a.pdf'' 1 sample_processor)) =
     (200, \<lparr>pdf_directory = [], document_cache = Map.empty,
            page_text_cache = cache_page Map.empty ''a.pdf'' 1 ''Hello world. More text.''\<rparr>)"
  unfolding sample_page_read
  by (simp add: delete_pdf_def get_pdf_path_def sample_processor_def
      sample_pdf_def path_suffix_def py_lower_def lower_char_def)

text \<open>
  Claim C9 at the failing input. A page is read (and cached), the file is deleted
  through the DELETE endpoint, which clears no cache, and the page is read again:
  the file no longer exists in the directory, and extract_page returns the cached page
  where the claim says \<open>None\<close>.
\<close>

theorem extract_page_serves_deleted_file:
  "get_pdf_path (snd (delete_pdf ''a.pdf'' (snd (extract_page ''a.pdf'' 1 sample_processor))))
     ''a.pdf'' = None
   \<and> fst (extract_page ''a.pdf'' 1
            (snd (delete_pdf ''a.pdf'' (snd (extract_page ''a.pdf'' 1 sample_processor))))) =
       Some \<lparr>page_number = 1, page_text = ''Hello world. More text.'', word_count = 4\<rparr>"
  unfolding sample_delete
  by (simp add: get_pdf_path_def extract_page_def cached_page_text_def
      cache_page_def make_page_def py_split_def py_isspace_def)

theorem extract_page_serves_deleted_file_witness:
  "fst (extract_page ''a.pdf'' 1
          (snd (delete_pdf ''a.pdf'' (snd (extract_page ''a.pdf'' 1 sample_processor))))) \<noteq> None"
  using extract_page_serves_deleted_file by simp

section \<open>Properties of the Generate UI stage\<close>

lemma add_page_keys:
  "map fst (add_page d fname p) =
     (if fname \<in> set (map fst d) then map fst d else map fst d @ [fname])"
  by (induction d fname p rule: add_page.induct) auto

lemma add_page_lookup:
  "map_of (add_page d fname p) g =
     (if g = fname
      then Some (case map_of d fname of None \<Rightarrow> [p]
                 | Some ps \<Rightarrow> if p \<in> set ps then ps else ps @ [p])
      else map_of d g)"
  by (induction d fname p rule: add_page.induct) auto

lemma pages_in_Cons:
  "pages_in ((f, p, c) # docs) g = (if g = f then insert p (pages_in docs g) else pages_in docs g)"
  by (auto simp: pages_in_def)

lemma collect_pages:
  assumes "distinct (map fst d)" "\<forall>g ps. map_of d g = Some ps \<longrightarrow> distinct ps"
  shows "distinct (map fst (fold (\<lambda>(fname, page_num, context) d. add_page d fname page_num) docs d))
       \<and> fst ` set (fold (\<lambda>(fname, page_num, context) d. add_page d fname page_num) docs d) =
           fst ` set d \<union> fst ` set docs
       \<and> (\<forall>g ps. map_of (fold (\<lambda>(fname, page_num, context) d. add_page d fname page_num) docs d) g
                   = Some ps \<longrightarrow>
             distinct ps
             \<and> set ps = (case map_of d g of None \<Rightarrow> {} | Some ps0 \<Rightarrow> set ps0) \<union> pages_in docs g)"
  using assms
proof (induction docs arbitrary: d)
  case Nil
  then show ?case by (auto simp: pages_in_def)
next
  case (Cons doc docs)
  obtain f p c where doc: "doc = (f, p, c)" by (cases doc) auto
  let ?d1 = "add_page d f p"
  let ?r = "fold (\<lambda>(fname, page_num, context) d. add_page d fname page_num) docs ?d1"
  have r: "fold (\<lambda>(fname, page_num, context) d. add_page d fname page_num) (doc # docs) d = ?r"
    by (simp add: doc)
  have k1: "distinct (map fst ?d1)" using Cons.prems(1) by (simp add: add_page_keys)
  have v1: "\<forall>g ps. map_of ?d1 g = Some ps \<longrightarrow> distinct ps"
    using Cons.prems(2) by (auto simp: add_page_lookup split: option.splits if_splits)
  from Cons.IH[OF k1 v1] have
    a: "distinct (map fst ?r)" and
    b: "fst ` set ?r = fst ` set ?d1 \<union> fst ` set docs" and
    c: "\<And>g ps. map_of ?r g = Some ps \<Longrightarrow>
          distinct ps \<and> set ps = (case map_of ?d1 g of None \<Rightarrow> {} | Some ps0 \<Rightarrow> set ps0)
                                  \<union> pages_in docs g"
    by blast+
  have "set (map fst ?d1) = insert f (set (map fst d))"
    by (simp only: add_page_keys) auto
  then have s1: "fst ` set ?d1 = insert f (fst ` set d)" by simp
  have l1: "\<And>g. (case map_of ?d1 g of None \<Rightarrow> {} | Some ps0 \<Rightarrow> set ps0) =
                 (if g = f then insert p (case map_of d g of None \<Rightarrow> {} | Some ps0 \<Rightarrow> set ps0)
                  else (case map_of d g of None \<Rightarrow> {} | Some ps0 \<Rightarrow> set ps0))"
    by (auto simp: add_page_lookup split: option.splits)
  have b': "fst ` set ?r = fst ` set d \<union> fst ` set (doc # docs)"
    unfolding b s1 doc by auto
  have c': "\<And>g ps. map_of ?r g = Some ps \<Longrightarrow>
          distinct ps \<and> set ps = (case map_of d g of None \<Rightarrow> {} | Some ps0 \<Rightarrow> set ps0)
                                  \<union> pages_in (doc # docs) g"
  proof -
    fix g ps assume "map_of ?r g = Some ps"
    from c[OF this] show "distinct ps \<and> set ps = (case map_of d g of None \<Rightarrow> {} | Some ps0 \<Rightarrow> set ps0)
                                  \<union> pages_in (doc # docs) g"
      unfolding l1 doc pages_in_Cons by (cases "g = f") auto
  qed
  show ?case unfolding r using a b' c' by blast
qed

lemma unique_docs_keys:
  "distinct (map fst (unique_docs docs))"
  "fst ` set (unique_docs docs) = fst ` set docs"
  using collect_pages[of "[]" docs] by (simp_all add: unique_docs_def)

lemma unique_docs_pages:
  assumes "map_of (unique_docs docs) g = Some ps"
  shows "distinct ps \<and> set ps = pages_in docs g"
proof -
  have "\<forall>g ps. map_of (unique_docs docs) g = Some ps \<longrightarrow>
          distinct ps \<and> set ps = pages_in docs g"
    using collect_pages[of "[]" docs] by (simp add: unique_docs_def)
  with assms show ?thesis by blast
qed

lemma pages_str_shown:
  "distinct ps \<Longrightarrow> pages_str ps = shown_pages (sorted_list_of_set (set ps))"
  by (simp add: pages_str_def shown_pages_def sorted_list_of_set_sort_remdups
      distinct_remdups_id)

lemma source_rows_names: "map hd (source_rows docs) = map fst (unique_docs docs)"
  by (simp add: source_rows_def comp_def case_prod_beta)

lemma source_rows_nonempty: "docs \<noteq> [] \<Longrightarrow> source_rows docs \<noteq> []"
proof
  assume "docs \<noteq> []" and "source_rows docs = []"
  then have "unique_docs docs = []" by (simp add: source_rows_def)
  then have "fst ` set (unique_docs docs) = {}" by simp
  then have "fst ` set docs = {}" by (simp only: unique_docs_keys(2))
  with \<open>docs \<noteq> []\<close> show False by simp
qed

text \<open>
  Claim C8, as amended. The Generate UI stage emits a sources table if and only if at
  least two sections were retrieved, whether or not they come from two documents. The
  table has one row for each distinct document of the sections; the row shows the
  document's distinct page numbers in ascending order, the first three of them, and,
  when there are more than three, the number of the others.
\<close>

theorem sources_table_iff_two_sections:
  "emitted (snd (generate_ui_blocks_node state w)) =
     emitted w @
       (if 2 \<le> length (relevant_documents state)
        then [UIBlockEvent
                (Table [''Document'', ''Relevant Pages''] (source_rows (relevant_documents state))
                   (Some ''Sources referenced in this response''))]
        else [])
   \<and> distinct (map hd (source_rows (relevant_documents state)))
   \<and> set (map hd (source_rows (relevant_documents state))) = fst ` set (relevant_documents state)
   \<and> (\<forall>row \<in> set (source_rows (relevant_documents state)).
        \<exists>fname. row = [fname,
                       shown_pages (sorted_list_of_set
                         {p. \<exists>c. (fname, p, c) \<in> set (relevant_documents state)})])"
proof (intro conjI ballI)
  let ?docs = "relevant_documents state"
  show "emitted (snd (generate_ui_blocks_node state w)) =
     emitted w @
       (if 2 \<le> length ?docs
        then [UIBlockEvent
                (Table [''Document'', ''Relevant Pages''] (source_rows ?docs)
                   (Some ''Sources referenced in this response''))]
        else [])"
  proof (cases "2 \<le> length ?docs")
    case True
    then have "?docs \<noteq> []" by auto
    from source_rows_nonempty[OF this] True show ?thesis
      by (simp add: generate_ui_blocks_node_def Let_def add_ui_block_def emit_def)
  next
    case False
    then show ?thesis by (simp add: generate_ui_blocks_node_def Let_def)
  qed
  show "distinct (map hd (source_rows ?docs))"
    by (simp only: source_rows_names unique_docs_keys(1))
  show "set (map hd (source_rows ?docs)) = fst ` set ?docs"
    by (simp add: source_rows_names unique_docs_keys(2))
  fix row assume "row \<in> set (source_rows ?docs)"
  then obtain f ps where fp: "(f, ps) \<in> set (unique_docs ?docs)" "row = [f, pages_str ps]"
    by (auto simp: source_rows_def)
  from fp(1) have "map_of (unique_docs ?docs) f = Some ps"
    using unique_docs_keys(1)[of ?docs] by simp
  from unique_docs_pages[OF this] have "distinct ps" "set ps = pages_in ?docs f" by auto
  then have "pages_str ps = shown_pages (sorted_list_of_set {p. \<exists>c. (f, p, c) \<in> set ?docs})"
    by (simp add: pages_str_shown pages_in_def)
  with fp(2) show "\<exists>fname. row = [fname,
                       shown_pages (sorted_list_of_set {p. \<exists>c. (fname, p, c) \<in> set ?docs})]"
    by blast
qed

lemma two_sections_rows:
  "source_rows [(''a.pdf'', 1, ''x''), (''a.pdf'', 2, ''y'')] = [[''a.pdf'', ''1, 2'']]"
  by code_simp

lemma mixed_rows:
  "source_rows [(''a.pdf'', 5, ''x''), (''b.pdf'', 2, ''y''), (''a.pdf'', 2, ''z''),
                (''a.pdf'', 9, ''u''), (''a.pdf'', 7, ''v'')] =
     [[''a.pdf'', ''2, 5, 7 (+1 more)''], [''b.pdf'', ''2'']]"
  by code_simp

theorem sources_table_iff_two_sections_witness:
  "emitted (snd (generate_ui_blocks_node
      (sample_state [(''a.pdf'', 5, ''x''), (''b.pdf'', 2, ''y''), (''a.pdf'', 2, ''z''),
                     (''a.pdf'', 9, ''u''), (''a.pdf'', 7, ''v'')]) sample_world)) =
     [UIBlockEvent
        (Table [''Document'', ''Relevant Pages'']
           [[''a.pdf'', ''2, 5, 7 (+1 more)''], [''b.pdf'', ''2'']]
           (Some ''Sources referenced in this response''))]"
  using sources_table_iff_two_sections
    [of "sample_state [(''a.pdf'', 5, ''x''), (''b.pdf'', 2, ''y''), (''a.pdf'', 2, ''z''),
                     (''a.pdf'', 9, ''u''), (''a.pdf'', 7, ''v'')]" sample_world]
  by (simp add: sample_state_def sample_world_def mixed_rows)

text \<open>
  Claim C8 as stated fails: two sections of one document are one distinct document,
  and the table is emitted all the same.
\<close>

theorem one_document_two_sections_gets_table:
  "card (fst ` set [(''a.pdf'', 1::int, ''x''), (''a.pdf'', 2, ''y'')]) = 1
   \<and> emitted (snd (generate_ui_blocks_node
        (sample_state [(''a.pdf'', 1, ''x''), (''a.pdf'', 2, ''y'')]) sample_world)) =
       [UIBlockEvent
          (Table [''Document'', ''Relevant Pages''] [[''a.pdf'', ''1, 2'']]
             (Some ''Sources referenced in this response''))]"
  by (simp add: generate_ui_blocks_node_def Let_def sample_state_def sample_world_def
      two_sections_rows add_ui_block_def emit_def)

section \<open>Properties of the synthesis stage\<close>

lemma emitted_emit: "emitted (emit e w) = emitted w @ [e]"
  by (simp add: emit_def)

text \<open>
  What holds of the citations for every text: each citation published resolves to the
  section of its number, which is in range; and when the loop runs to its end, the
  citation numbers published are exactly the integers in range that the cited digit
  strings denote.
\<close>

lemma cite_step:
  "cite (n # ns) docs = (cs, e) \<Longrightarrow>
     (\<exists>err. py_int n = Inl err \<and> cs = [] \<and> e = Some err)
   \<or> (\<exists>k. py_int n = Inr k \<and> \<not> (1 \<le> k \<and> k \<le> int (length docs)) \<and> cite ns docs = (cs, e))
   \<or> (\<exists>k err. py_int n = Inr k \<and> 1 \<le> k \<and> k \<le> int (length docs)
         \<and> create_citation k (fst (docs ! nat (k - 1))) (fst (snd (docs ! nat (k - 1))))
              (take 150 (snd (snd (docs ! nat (k - 1))))) = Inl err
         \<and> cs = [] \<and> e = Some err)
   \<or> (\<exists>k c cs'. py_int n = Inr k \<and> 1 \<le> k \<and> k \<le> int (length docs)
         \<and> create_citation k (fst (docs ! nat (k - 1))) (fst (snd (docs ! nat (k - 1))))
              (take 150 (snd (snd (docs ! nat (k - 1))))) = Inr c
         \<and> cite ns docs = (cs', e) \<and> cs = c # cs')"
  by (auto split: sum.splits prod.splits if_splits)

lemma py_int_Inr: "py_int n = Inr k \<Longrightarrow> k = int_of_digits n"
  by (auto simp: py_int_def split: if_splits)

lemma create_citation_Inr:
  "create_citation k f p t = Inr c \<Longrightarrow>
     cit_id c = k \<and> document_name c = f \<and> cit_page_number c = p \<and> text_snippet c = (if length t > 200 then take 200 t else t) \<and> 1 \<le> p"
  by (auto simp: create_citation_def Let_def split: if_splits)

lemma cite_resolves:
  "cite ns docs = (cs, e) \<Longrightarrow> c \<in> set cs \<Longrightarrow>
     1 \<le> cit_id c \<and> cit_id c \<le> int (length docs)
     \<and> document_name c = fst (docs ! nat (cit_id c - 1))
     \<and> cit_page_number c = fst (snd (docs ! nat (cit_id c - 1)))
     \<and> text_snippet c = take 150 (snd (snd (docs ! nat (cit_id c - 1))))"
proof (induction ns arbitrary: cs)
  case Nil
  then show ?case by simp
next
  case (Cons n ns)
  from cite_step[OF Cons.prems(1)] show ?case
  proof (elim disjE exE conjE)
    fix err assume "cs = []"
    with Cons.prems(2) show ?thesis by simp
  next
    fix k assume "cite ns docs = (cs, e)"
    from Cons.IH[OF this Cons.prems(2)] show ?thesis .
  next
    fix k err assume "cs = []"
    with Cons.prems(2) show ?thesis by simp
  next
    fix k c0 cs'
    assume k: "py_int n = Inr k" "1 \<le> k" "k \<le> int (length docs)"
      and c0: "create_citation k (fst (docs ! nat (k - 1))) (fst (snd (docs ! nat (k - 1))))
              (take 150 (snd (snd (docs ! nat (k - 1))))) = Inr c0"
      and r: "cite ns docs = (cs', e)" and cs: "cs = c0 # cs'"
    show ?thesis
    proof (cases "c = c0")
      case True
      with create_citation_Inr[OF c0] k show ?thesis by simp
    next
      case False
      with Cons.prems(2) cs have "c \<in> set cs'" by simp
      from Cons.IH[OF r this] show ?thesis .
    qed
  qed
qed

lemma cite_ids:
  "cite ns docs = (cs, None) \<Longrightarrow>
   cit_id ` set cs = {k. 1 \<le> k \<and> k \<le> int (length docs) \<and> k \<in> int_of_digits ` set ns}"
proof (induction ns arbitrary: cs)
  case Nil
  then show ?case by simp
next
  case (Cons n ns)
  from cite_step[OF Cons.prems] show ?case
  proof (elim disjE exE conjE)
    fix err assume "None = Some err"
    then show ?thesis by simp
  next
    fix k assume k: "py_int n = Inr k" "\<not> (1 \<le> k \<and> k \<le> int (length docs))"
      and r: "cite ns docs = (cs, None)"
    from Cons.IH[OF r] py_int_Inr[OF k(1)] k(2) show ?thesis by auto
  next
    fix k err assume "None = Some err"
    then show ?thesis by simp
  next
    fix k c0 cs'
    assume k: "py_int n = Inr k" "1 \<le> k" "k \<le> int (length docs)"
      and c0: "create_citation k (fst (docs ! nat (k - 1))) (fst (snd (docs ! nat (k - 1))))
              (take 150 (snd (snd (docs ! nat (k - 1))))) = Inr c0"
      and r: "cite ns docs = (cs', None)" and cs: "cs = c0 # cs'"
    have "cit_id c0 = k" using create_citation_Inr[OF c0] by simp
    with Cons.IH[OF r] py_int_Inr[OF k(1)] k(2,3) cs show ?thesis by auto
  qed
qed

text \<open>The loop runs to its end when no cited number has more than 4300 digits and the
  sections have page numbers from 1 on, as the retrieval stage gives them.\<close>

lemma cite_completes:
  assumes "\<forall>n\<in>set ns. length n \<le> max_str_digits" "\<forall>(f, p, c)\<in>set docs. 1 \<le> p"
  shows "snd (cite ns docs) = None"
  using assms(1)
proof (induction ns)
  case Nil
  show ?case by simp
next
  case (Cons n ns)
  then have ih: "snd (cite ns docs) = None" and n: "py_int n = Inr (int_of_digits n)"
    by (simp_all add: py_int_def)
  show ?case
  proof (cases "1 \<le> int_of_digits n \<and> int_of_digits n \<le> int (length docs)")
    case False
    then show ?thesis using ih n by auto
  next
    case True
    then have "nat (int_of_digits n - 1) < length docs" by linarith
    then have "docs ! nat (int_of_digits n - 1) \<in> set docs" by (rule nth_mem)
    with assms(2) have "1 \<le> fst (snd (docs ! nat (int_of_digits n - 1)))" by auto
    then show ?thesis
      using ih n True
      by (auto simp: create_citation_def Let_def split: prod.splits sum.splits)
  qed
qed

lemma citation_bounds_example:
  "cite (cited_numbers ''As shown in [1], and also in [7].'')
        [(''a.pdf'', 1, ''x''), (''a.pdf'', 2, ''y''), (''b.pdf'', 1, ''z'')] =
     ([\<lparr>cit_id = 1, document_name = ''a.pdf'', cit_page_number = 1, text_snippet = ''x'',
        start_char = None, end_char = None\<rparr>], None)"
  by code_simp

lemma leading_zero_numbers: "cited_numbers ''See [1] and [01].'' = [''1'', ''01'']"
  by code_simp

lemma leading_zero_cite:
  "cite [''1'', ''01''] [(''a.pdf'', 5, ''x'')] =
     ([\<lparr>cit_id = 1, document_name = ''a.pdf'', cit_page_number = 5, text_snippet = ''x'',
        start_char = None, end_char = None\<rparr>,
       \<lparr>cit_id = 1, document_name = ''a.pdf'', cit_page_number = 5, text_snippet = ''x'',
        start_char = None, end_char = None\<rparr>], None)"
  "cite [''01'', ''1''] [(''a.pdf'', 5, ''x'')] =
     ([\<lparr>cit_id = 1, document_name = ''a.pdf'', cit_page_number = 5, text_snippet = ''x'',
        start_char = None, end_char = None\<rparr>,
       \<lparr>cit_id = 1, document_name = ''a.pdf'', cit_page_number = 5, text_snippet = ''x'',
        start_char = None, end_char = None\<rparr>], None)"
  by code_simp+

lemma citations_of_append: "citations_of (xs @ ys) = citations_of xs @ citations_of ys"
  by (induction xs rule: citations_of.induct) auto

lemma citations_of_citations: "citations_of (map CitationEvent cs) = cs"
  by (induction cs) auto

lemma emitted_add_citation:
  "emitted (fold add_citation cs w) = emitted w @ map CitationEvent cs"
  by (induction cs arbitrary: w) (auto simp: add_citation_def emitted_emit)

lemma synthesize_citations:
  assumes "llm_create_error co = None" "\<And>m. llm_stream co m = ([reply], None)" "reply \<noteq> []"
    "citations_of (emitted w) = []"
  shows "citations_of (emitted (snd (synthesize_answer_node co state w))) =
           fst (cite (set_order co (cited_numbers reply)) (relevant_documents state))"
  using assms
  by (simp add: synthesize_answer_node_def Let_def emitted_add_citation citations_of_append
      citations_of_citations on_tool_end_def on_tool_start_def tool_descriptions_def
      stream_text_def emitted_emit split: prod.splits option.splits)

text \<open>
  Claim C5 at the failing input. The generated text is \<open>See [1] and [01].\<close> and one
  section was retrieved. The set of cited numbers is a set of digit strings, so it holds
  both \<open>1\<close> and \<open>01\<close>; both are the integer 1, and the stage emits two Citation
  events for citation 1, in whichever order the set is iterated (the two orders are
  shown), where the claim has one for each distinct integer.
\<close>

theorem leading_zero_is_cited_twice:
  "citations_of (emitted (snd (synthesize_answer_node
       (sample_collaborators ''See [1] and [01].'' (\<lambda>xs. xs))
       (sample_state [(''a.pdf'', 5, ''x'')]) sample_world))) =
     [\<lparr>cit_id = 1, document_name = ''a.pdf'', cit_page_number = 5, text_snippet = ''x'',
       start_char = None, end_char = None\<rparr>,
      \<lparr>cit_id = 1, document_name = ''a.pdf'', cit_page_number = 5, text_snippet = ''x'',
       start_char = None, end_char = None\<rparr>]
   \<and> citations_of (emitted (snd (synthesize_answer_node
       (sample_collaborators ''See [1] and [01].'' rev)
       (sample_state [(''a.pdf'', 5, ''x'')]) sample_world))) =
     [\<lparr>cit_id = 1, document_name = ''a.pdf'', cit_page_number = 5, text_snippet = ''x'',
       start_char = None, end_char = None\<rparr>,
      \<lparr>cit_id = 1, document_name = ''a.pdf'', cit_page_number = 5, text_snippet = ''x'',
       start_char = None, end_char = None\<rparr>]"
proof -
  have a: "\<And>ord. citations_of (emitted (snd (synthesize_answer_node
       (sample_collaborators ''See [1] and [01].'' ord)
       (sample_state [(''a.pdf'', 5, ''x'')]) sample_world))) =
      fst (cite (ord [''1'', ''01'']) [(''a.pdf'', 5, ''x'')])"
    by (subst synthesize_citations[where reply = "''See [1] and [01].''"])
       (simp_all add: sample_collaborators_def sample_world_def sample_state_def
          leading_zero_numbers)
  show ?thesis
    unfolding a using leading_zero_cite by simp
qed

theorem leading_zero_is_cited_twice_witness:
  "length (citations_of (emitted (snd (synthesize_answer_node
       (sample_collaborators ''See [1] and [01].'' (\<lambda>xs. xs))
       (sample_state [(''a.pdf'', 5, ''x'')]) sample_world)))) = 2"
  using leading_zero_is_cited_twice by simp

section \<open>Properties of a failing run\<close>

lemma started_append: "started (xs @ ys) = started xs @ started ys"
  by (induction xs rule: started.induct) auto

lemma emitted_on_tool_start:
  "\<exists>ty desc. emitted (on_tool_start name w) = emitted w @ [ToolCallStartEvent ty name desc]"
  by (auto simp: on_tool_start_def emitted_emit split: option.splits)

lemma emitted_on_tool_end:
  "\<exists>ty. emitted (on_tool_end name ok summary w) = emitted w @ [ToolCallEndEvent ty name ok summary]"
  by (auto simp: on_tool_end_def emitted_emit split: option.splits)

lemma emitted_stream_text:
  "emitted (fold stream_text xs w) = emitted w @ map TextChunkEvent xs"
  by (induction xs arbitrary: w) (auto simp: stream_text_def emitted_emit)

lemma started_text: "started (map TextChunkEvent xs) = []"
  by (induction xs) auto

lemma started_citations: "started (map CitationEvent cs) = []"
  by (induction cs) auto

lemma stage_text: "list_all stage_event (map TextChunkEvent xs)"
  by (induction xs) (auto simp: stage_event_def)

lemma stage_citations: "list_all stage_event (map CitationEvent cs)"
  by (induction cs) (auto simp: stage_event_def)

lemma adds_trans: "adds w w1 xs \<Longrightarrow> adds w1 w2 ys \<Longrightarrow> adds w w2 (xs @ ys)"
  by (auto simp: adds_def started_append)

lemma adds_start: "adds w (on_tool_start name w) [name]"
  using emitted_on_tool_start[of name w] by (auto simp: adds_def stage_event_def)

lemma adds_end: "adds w (on_tool_end name ok summary w) []"
  using emitted_on_tool_end[of name ok summary w] by (auto simp: adds_def stage_event_def)

lemma adds_ui: "adds w (add_ui_block b w) []"
  by (auto simp: adds_def add_ui_block_def emitted_emit stage_event_def)

lemma adds_text: "adds w (fold stream_text xs w) []"
  by (auto simp: adds_def emitted_stream_text started_text stage_text)

lemma adds_cits: "adds w (fold add_citation cs w) []"
  by (auto simp: adds_def emitted_add_citation started_citations stage_citations)

lemma adds_pdfs: "adds w (w\<lparr>pdfs := s\<rparr>) []"
  by (simp add: adds_def)

lemma adds_refl: "adds w w []"
  by (simp add: adds_def)

lemma analyze_adds:
  "analyze_query_node co state w = (r, w') \<Longrightarrow> adds w w' [''analyze_query'']"
  using adds_start[of w "''analyze_query''"]
    adds_trans[OF adds_start[of w "''analyze_query''"]
      adds_end[of "on_tool_start ''analyze_query'' w" "''analyze_query''" True "Some ''Query analyzed''"]]
  by (auto simp: analyze_query_node_def Let_def split: option.splits sum.splits)

lemma search_adds:
  assumes "search_documents_node state w = Some (state', w')"
  shows "adds w w' [''search_documents'']"
proof -
  let ?w1 = "on_tool_start ''search_documents'' w"
  from assms obtain docs s' where r: "retrieve (st_query state) (pdfs ?w1) = Some (docs, s')"
    by (auto simp: search_documents_node_def Let_def split: option.splits)
  let ?b = "if docs \<noteq> [] then documents_loaded_block docs else no_documents_block"
  let ?w2 = "add_ui_block ?b (?w1\<lparr>pdfs := s'\<rparr>)"
  from assms r have w': "w' = on_tool_end ''search_documents'' True
        (Some (''Loaded '' @ str_nat (length docs) @ '' sections from documents'')) ?w2"
    by (auto simp: search_documents_node_def Let_def)
  have "adds w ?w1 [''search_documents'']" by (rule adds_start)
  from adds_trans[OF this adds_pdfs[of ?w1 s']] have "adds w (?w1\<lparr>pdfs := s'\<rparr>) [''search_documents'']"
    by simp
  from adds_trans[OF this adds_ui[of _ ?b]] have "adds w ?w2 [''search_documents'']" by simp
  from adds_trans[OF this adds_end] show ?thesis unfolding w' by simp
qed

lemma extract_adds:
  assumes "extract_content_node state w = (state', w')"
  shows "adds w w' [''read_pdf_page'']"
proof -
  let ?w1 = "on_tool_start ''read_pdf_page'' w"
  obtain content s' where e: "extract_pages (take 3 (relevant_documents state)) [] (pdfs ?w1) = (content, s')"
    by (cases "extract_pages (take 3 (relevant_documents state)) [] (pdfs ?w1)") auto
  with assms have w': "w' = on_tool_end ''read_pdf_page'' True
                (Some (''Extracted content from '' @ str_nat (length content) @ '' pages''))
                (?w1\<lparr>pdfs := s'\<rparr>)"
    by (simp add: extract_content_node_def Let_def)
  have "adds w ?w1 [''read_pdf_page'']" by (rule adds_start)
  from adds_trans[OF this adds_pdfs[of ?w1 s']] have "adds w (?w1\<lparr>pdfs := s'\<rparr>) [''read_pdf_page'']"
    by simp
  from adds_trans[OF this adds_end] show ?thesis unfolding w' by simp
qed

lemma synthesize_adds:
  assumes "synthesize_answer_node co state w = (r, w')"
  shows "adds w w' [''synthesize_answer'']"
proof -
  let ?w1 = "on_tool_start ''synthesize_answer'' w"
  have a1: "adds w ?w1 [''synthesize_answer'']" by (rule adds_start)
  show ?thesis
  proof (cases "llm_create_error co")
    case (Some err)
    with assms have "w' = ?w1" by (simp add: synthesize_answer_node_def Let_def)
    with a1 show ?thesis by simp
  next
    case None
    let ?msgs = "[SystemMessage synthesize_system_prompt,
                      HumanMessage (''Context:'' @ [CHR 0x0A] @ context_of (relevant_documents state)
                                      @ [CHR 0x0A, CHR 0x0A] @ ''User question: '' @ st_query state)]"
    obtain contents failure where s: "llm_stream co ?msgs = (contents, failure)"
      by (cases "llm_stream co ?msgs") auto
    let ?spoken = "filter (\<lambda>content. content \<noteq> []) contents"
    let ?w2 = "fold stream_text ?spoken ?w1"
    from adds_trans[OF a1 adds_text] have a2: "adds w ?w2 [''synthesize_answer'']" by simp
    show ?thesis
    proof (cases failure)
      case (Some err)
      with assms None s have "w' = ?w2" by (simp add: synthesize_answer_node_def Let_def)
      with a2 show ?thesis by simp
    next
      case fNone: None
      let ?w3 = "on_tool_end ''synthesize_answer'' True (Some ''Answer generated'') ?w2"
      obtain cits e where c:
        "cite (set_order co (cited_numbers (concat ?spoken))) (relevant_documents state) = (cits, e)"
        by (cases "cite (set_order co (cited_numbers (concat ?spoken))) (relevant_documents state)")
           auto
      from assms None s fNone c have "w' = fold add_citation cits ?w3"
        by (cases e) (simp_all add: synthesize_answer_node_def Let_def)
      moreover from adds_trans[OF a2 adds_end] have "adds w ?w3 [''synthesize_answer'']" by simp
      from adds_trans[OF this adds_cits] have
        "adds w (fold add_citation cits ?w3) [''synthesize_answer'']" by simp
      ultimately show ?thesis by simp
    qed
  qed
qed

lemma generate_ui_adds:
  "generate_ui_blocks_node state w = (state', w') \<Longrightarrow> adds w w' []"
  using adds_ui adds_refl
  by (auto simp: generate_ui_blocks_node_def Let_def split: if_splits)

lemma node_body_adds:
  assumes "node_body co n state w = Some (r, w')" "n \<noteq> Finalize"
  shows "adds w w' (node_tools n)"
proof (cases n)
  case AnalyzeQuery
  with assms show ?thesis using analyze_adds[of co state w r w'] by simp
next
  case SearchDocuments
  with assms show ?thesis
    using search_adds[of state w _ w'] by (auto split: option.splits)
next
  case ExtractContent
  with assms show ?thesis
    using extract_adds[of state w _ w'] by (auto split: prod.splits)
next
  case SynthesizeAnswer
  with assms show ?thesis using synthesize_adds[of co state w r w'] by simp
next
  case GenerateUIBlocks
  with assms show ?thesis
    using generate_ui_adds[of state w _ w'] by (auto split: prod.splits)
next
  case Finalize
  with assms show ?thesis by simp
qed

lemma finalize_body:
  "node_body co Finalize state w = Some (r, w') \<Longrightarrow>
     emitted w' = emitted w @ [DoneEvent None] \<and> (\<exists>state'. r = Inr state')"
  by (auto simp: finalize_node_def handler_finish_def emitted_emit)

lemma started_take: "prefix (started (take k xs)) (started xs)"
proof -
  have "started xs = started (take k xs @ drop k xs)" by simp
  also have "\<dots> = started (take k xs) @ started (drop k xs)" by (rule started_append)
  finally show ?thesis by (simp add: prefix_def)
qed

lemma adds_adds_part: "adds w w' names \<Longrightarrow> adds_part w w' names"
  by (auto simp: adds_def adds_part_def)

text \<open>A node whose run is not interrupted ends as its body ends.\<close>

lemma interrupt_Inr:
  "interrupt fault w res = (Inr state', w') \<Longrightarrow> res = (Inr state', w')"
  by (auto simp: interrupt_def split: option.splits prod.splits if_splits)

lemma interrupt_part:
  assumes "emitted w1 = emitted w @ new" "interrupt fault w (r, w1) = (r2, w2)"
  shows "(r2 = r \<and> w2 = w1) \<or> (\<exists>k<length new. emitted w2 = emitted w @ take k new)"
proof (cases fault)
  case None
  with assms(2) show ?thesis by (simp add: interrupt_def)
next
  case (Some f)
  obtain k err where f: "f = (k, err)" by (cases f)
  show ?thesis
  proof (cases "length (emitted w) + k < length (emitted w1)")
    case True
    with assms Some f have "emitted w2 = emitted w @ take k new" "k < length new"
      by (auto simp: interrupt_def)
    then show ?thesis by blast
  next
    case False
    with assms(2) Some f show ?thesis by (simp add: interrupt_def)
  qed
qed

lemma run_node_ok:
  assumes "run_node co n state w = Some (Inr state', w')" "n \<noteq> Finalize"
  shows "adds w w' (node_tools n)"
proof -
  from assms(1) obtain res where b: "node_body co n state w = Some res"
    and i: "interrupt (node_fault co n) w res = (Inr state', w')"
    by (auto simp: run_node_def split: option.splits)
  from interrupt_Inr[OF i] b have "node_body co n state w = Some (Inr state', w')" by simp
  from node_body_adds[OF this assms(2)] show ?thesis .
qed

lemma run_node_fail:
  assumes "run_node co n state w = Some (Inl err, w')"
  shows "adds_part w w' (node_tools n)"
proof -
  from assms obtain r w1 where b: "node_body co n state w = Some (r, w1)"
    and i: "interrupt (node_fault co n) w (r, w1) = (Inl err, w')"
    by (auto simp: run_node_def split: option.splits)
  show ?thesis
  proof (cases "n = Finalize")
    case True
    from finalize_body[OF b[unfolded True]] obtain state' where
      e: "emitted w1 = emitted w @ [DoneEvent None]" and r: "r = Inr state'" by auto
    from interrupt_part[OF e i] r have "emitted w' = emitted w" by auto
    then show ?thesis by (simp add: adds_part_def)
  next
    case False
    from node_body_adds[OF b False] obtain new where
      new: "emitted w1 = emitted w @ new" "list_all stage_event new"
        "started new = node_tools n"
      by (auto simp: adds_def)
    from interrupt_part[OF new(1) i] show ?thesis
    proof
      assume "Inl err = r \<and> w' = w1"
      with new show ?thesis by (auto simp: adds_part_def)
    next
      assume "\<exists>k<length new. emitted w' = emitted w @ take k new"
      then obtain k where k: "emitted w' = emitted w @ take k new" by auto
      have "list_all stage_event (take k new)"
        using new(2) by (auto simp: list_all_iff dest: in_set_takeD)
      moreover have "prefix (started (take k new)) (node_tools n)"
        using started_take[of k new] new(3) by simp
      ultimately show ?thesis using k by (auto simp: adds_part_def)
    qed
  qed
qed

lemma run_chain_ok:
  "run_chain co ns state w = Some (Inr state', w') \<Longrightarrow> Finalize \<notin> set ns \<Longrightarrow>
   adds w w' (concat (map node_tools ns))"
proof (induction ns arbitrary: state w)
  case Nil
  then show ?case by (simp add: adds_refl)
next
  case (Cons n ns)
  from Cons.prems(1) obtain state1 w1 where
    n: "run_node co n state w = Some (Inr state1, w1)"
    and r: "run_chain co ns state1 w1 = Some (Inr state', w')"
    by (auto split: option.splits sum.splits prod.splits)
  from Cons.prems(2) have nf: "n \<noteq> Finalize" "Finalize \<notin> set ns" by auto
  from adds_trans[OF run_node_ok[OF n nf(1)] Cons.IH[OF r nf(2)]]
  show ?case by simp
qed

lemma run_chain_append:
  "run_chain co (xs @ ys) state w =
     (case run_chain co xs state w of
        None \<Rightarrow> None
      | Some (Inl err, w') \<Rightarrow> Some (Inl err, w')
      | Some (Inr state', w') \<Rightarrow> run_chain co ys state' w')"
  by (induction xs arbitrary: state w) (auto split: option.splits sum.splits prod.splits)

lemma chain_fails:
  assumes "graph_chain = before @ failed # after"
    "run_chain co before state w = Some (Inr state1, wb)"
    "run_node co failed state1 wb = Some (Inl err, wx)"
  shows "graph_invoke co state w = Some (Inl err, wx)"
  unfolding graph_invoke_def assms(1) run_chain_append
  using assms(2,3) by simp

lemma before_not_final:
  "graph_chain = before @ failed # after \<Longrightarrow> Finalize \<notin> set before"
proof
  assume g: "graph_chain = before @ failed # after" and f: "Finalize \<in> set before"
  have "distinct (before @ failed # after)"
    unfolding g[symmetric] by (simp add: graph_chain_def)
  then have d: "set before \<inter> set (failed # after) = {}" by auto
  have "last (before @ failed # after) = Finalize"
    unfolding g[symmetric] by (simp add: graph_chain_def)
  then have "last (failed # after) = Finalize" by simp
  moreover have "last (failed # after) \<in> set (failed # after)" by (rule last_in_set) simp
  ultimately show False using d f by auto
qed

lemma chain_tools:
  "concat (map node_tools graph_chain) =
     [''analyze_query'', ''search_documents'', ''read_pdf_page'', ''synthesize_answer'']"
  by (simp add: graph_chain_def)

lemma failed_chain_events:
  assumes "graph_chain = before @ failed # after"
    "run_chain co before state w = Some (Inr state1, wb)"
    "run_node co failed state1 wb = Some (Inl err, wx)"
  shows "\<exists>new p. emitted wx = emitted w @ new \<and> list_all stage_event new
           \<and> started new = concat (map node_tools before) @ p \<and> prefix p (node_tools failed)"
proof -
  from run_chain_ok[OF assms(2) before_not_final[OF assms(1)]] obtain new1 where
    n1: "emitted wb = emitted w @ new1" "list_all stage_event new1"
      "started new1 = concat (map node_tools before)"
    by (auto simp: adds_def)
  from run_node_fail[OF assms(3)] obtain new2 where
    n2: "emitted wx = emitted wb @ new2" "list_all stage_event new2"
      "prefix (started new2) (node_tools failed)"
    by (auto simp: adds_part_def)
  show ?thesis
    by (intro exI[of _ "new1 @ new2"] exI[of _ "started new2"])
       (use n1 n2 in \<open>simp add: started_append\<close>)
qed

text \<open>
  Claim C7. A job fails when the graph cannot be obtained, or when a node of the chain
  raises after the nodes before it have run to their end: whichever node it is, and
  whatever the exception (of the text-generation service, of \<open>int\<close> or the Citation
  constructor in the synthesis stage, or a fault from outside). Then the job returns,
  and the events it has published are the events published up to the failure, followed
  by exactly one error event with \<open>recoverable\<close> false and by Done, and by nothing
  else: no node runs after the one that failed. The events before the error are events
  of stages only, none of them an error or Done; they start the tools of the nodes that
  ran, each once and in the order of the chain, and at most the tool of the failed node
  after them.
\<close>

theorem failed_run_publishes_error_then_done:
  assumes "(graph_error co = Some err \<and> wx = w)
           \<or> (graph_error co = None \<and> graph_chain = before @ failed # after
               \<and> run_chain co before (initial_state jid q) w = Some (Inr state, wb)
               \<and> run_node co failed state wb = Some (Inl err, wx))"
  shows "\<exists>res w'. process_chat_job co jid q w = Some (res, w')
           \<and> emitted w' = emitted wx @ [ErrorEvent err False, DoneEvent None]
           \<and> (\<exists>new. emitted wx = emitted w @ new
                \<and> list_all (\<lambda>e. \<not> is_error_event e \<and> \<not> is_done_event e) new
                \<and> prefix (started new)
                     [''analyze_query'', ''search_documents'', ''read_pdf_page'',
                      ''synthesize_answer'']
                \<and> (graph_error co = None \<longrightarrow>
                      (\<exists>p. started new = concat (map node_tools before) @ p
                           \<and> prefix p (node_tools failed))))"
  using assms
proof
  assume g: "graph_error co = Some err \<and> wx = w"
  then have "process_chat_job co jid q w =
      Some (\<lparr>res_status = ''failed'', res_response = [], res_citations = [],
                 res_error = Some err\<rparr>,
                emit (DoneEvent None) (emit (ErrorEvent err False) w))"
    by (simp add: process_chat_job_def run_agent_def)
  then show ?thesis
    using g
    by (intro exI[of _ "\<lparr>res_status = ''failed'', res_response = [], res_citations = [],
                 res_error = Some err\<rparr>"] exI[of _ "emit (DoneEvent None) (emit (ErrorEvent err False) w)"])
       (simp add: emitted_emit)
next
  assume a: "graph_error co = None \<and> graph_chain = before @ failed # after
               \<and> run_chain co before (initial_state jid q) w = Some (Inr state, wb)
               \<and> run_node co failed state wb = Some (Inl err, wx)"
  then have n: "graph_error co = None"
    and c: "graph_chain = before @ failed # after"
    and b: "run_chain co before (initial_state jid q) w = Some (Inr state, wb)"
    and f: "run_node co failed state wb = Some (Inl err, wx)" by auto
  from failed_chain_events[OF c b f] obtain new p where
    new: "emitted wx = emitted w @ new" "list_all stage_event new"
      "started new = concat (map node_tools before) @ p" "prefix p (node_tools failed)"
    by blast
  have "prefix (concat (map node_tools before) @ p)
          (concat (map node_tools before) @ node_tools failed @ concat (map node_tools after))"
    using new(4) by (auto simp: prefix_def)
  also have "concat (map node_tools before) @ node_tools failed @ concat (map node_tools after) =
      concat (map node_tools graph_chain)"
    unfolding c by simp
  finally have t: "prefix (started new)
      [''analyze_query'', ''search_documents'', ''read_pdf_page'', ''synthesize_answer'']"
    unfolding new(3) chain_tools .
  let ?w' = "handler_finish (handler_error err False wx)"
  let ?res = "\<lparr>res_status = ''completed'',
               res_response = final_response ((initial_state jid q)\<lparr>error_message := Some err, current_step := ''error''\<rparr>),
               res_citations = st_citations ((initial_state jid q)\<lparr>error_message := Some err, current_step := ''error''\<rparr>),
               res_error = None\<rparr>"
  have pj: "process_chat_job co jid q w = Some (?res, ?w')"
    using n chain_fails[OF c b f] by (simp add: process_chat_job_def run_agent_def)
  have e: "emitted ?w' = emitted wx @ [ErrorEvent err False, DoneEvent None]"
    by (simp add: handler_finish_def handler_error_def emitted_emit)
  have s: "list_all (\<lambda>e. \<not> is_error_event e \<and> \<not> is_done_event e) new"
    using new(2) by (simp add: stage_event_def[abs_def])
  show ?thesis
    using pj e s t new(1,3,4) by blast
qed

lemma two_pdfs_run:
  "map_option (emitted \<circ> snd)
     (process_chat_job stream_failing_collaborators ''j1'' ''hello'' two_pdfs_world) =
     Some [ToolCallStartEvent ANALYZE_CONTENT ''analyze_query''
             (emoji_brain @ '' Running analyze_query...''),
           ToolCallEndEvent ANALYZE_CONTENT ''analyze_query'' True (Some ''Query analyzed''),
           ToolCallStartEvent SEARCH_DOCUMENTS ''search_documents''
             (emoji_search @ '' Searching documents...''),
           UIBlockEvent
             (InfoCard (emoji_books @ '' Documents Loaded'')
                ''Loaded 2 section(s) from 2 document(s).'' (Some emoji_tabs)),
           ToolCallEndEvent SEARCH_DOCUMENTS ''search_documents'' True
             (Some ''Loaded 2 sections from documents''),
           ToolCallStartEvent READ_PDF ''read_pdf_page'' (emoji_page @ '' Reading PDF page...''),
           ToolCallEndEvent READ_PDF ''read_pdf_page'' True
             (Some ''Extracted content from 2 pages''),
           ToolCallStartEvent ANALYZE_CONTENT ''synthesize_answer''
             (emoji_brain @ '' Running synthesize_answer...''),
           TextChunkEvent ''Hel'',
           ErrorEvent ''connection reset'' False, DoneEvent None]"
  by code_simp

lemma two_pdfs_before:
  "(case run_chain stream_failing_collaborators [AnalyzeQuery, SearchDocuments, ExtractContent]
           (initial_state ''j1'' ''hello'') two_pdfs_world of
      Some (Inr state, w) \<Rightarrow> True | other \<Rightarrow> False)"
  by code_simp

lemma two_pdfs_failed:
  "(case run_chain stream_failing_collaborators [AnalyzeQuery, SearchDocuments, ExtractContent]
           (initial_state ''j1'' ''hello'') two_pdfs_world of
      Some (Inr state, w) \<Rightarrow>
        (case run_node stream_failing_collaborators SynthesizeAnswer state w of
           Some (Inl err, w') \<Rightarrow> err = ''connection reset'' | other \<Rightarrow> False)
    | other \<Rightarrow> False)"
  by code_simp

lemma succeeded_then:
  "(case X of Some (Inr state, w) \<Rightarrow> P state w | other \<Rightarrow> False) \<Longrightarrow>
   \<exists>state w. X = Some (Inr state, w) \<and> P state w"
  by (auto split: option.splits prod.splits sum.splits)

lemma raised_then:
  "(case X of Some (Inl err, w) \<Rightarrow> err = e | other \<Rightarrow> False) \<Longrightarrow>
   \<exists>w. X = Some (Inl e, w)"
  by (auto split: option.splits prod.splits sum.splits)

theorem failed_run_publishes_error_then_done_witness:
  "graph_chain =
     [AnalyzeQuery, SearchDocuments, ExtractContent] @ SynthesizeAnswer
       # [GenerateUIBlocks, Finalize]
   \<and> (case run_chain stream_failing_collaborators [AnalyzeQuery, SearchDocuments, ExtractContent]
              (initial_state ''j1'' ''hello'') two_pdfs_world of
         Some (Inr state, w) \<Rightarrow>
           (case run_node stream_failing_collaborators SynthesizeAnswer state w of
              Some (Inl err, w') \<Rightarrow> err = ''connection reset'' | other \<Rightarrow> False)
       | other \<Rightarrow> False)
   \<and> map_option (emitted \<circ> snd)
        (process_chat_job stream_failing_collaborators ''j1'' ''hello'' two_pdfs_world) =
       Some [ToolCallStartEvent ANALYZE_CONTENT ''analyze_query''
               (emoji_brain @ '' Running analyze_query...''),
             ToolCallEndEvent ANALYZE_CONTENT ''analyze_query'' True (Some ''Query analyzed''),
             ToolCallStartEvent SEARCH_DOCUMENTS ''search_documents''
               (emoji_search @ '' Searching documents...''),
             UIBlockEvent
               (InfoCard (emoji_books @ '' Documents Loaded'')
                  ''Loaded 2 section(s) from 2 document(s).'' (Some emoji_tabs)),
             ToolCallEndEvent SEARCH_DOCUMENTS ''search_documents'' True
               (Some ''Loaded 2 sections from documents''),
             ToolCallStartEvent READ_PDF ''read_pdf_page'' (emoji_page @ '' Reading PDF page...''),
             ToolCallEndEvent READ_PDF ''read_pdf_page'' True
               (Some ''Extracted content from 2 pages''),
             ToolCallStartEvent ANALYZE_CONTENT ''synthesize_answer''
               (emoji_brain @ '' Running synthesize_answer...''),
             TextChunkEvent ''Hel'',
             ErrorEvent ''connection reset'' False, DoneEvent None]"
proof -
  let ?co = stream_failing_collaborators
  let ?before = "[AnalyzeQuery, SearchDocuments, ExtractContent]"
  from succeeded_then[OF two_pdfs_failed] obtain state wb where
    b: "run_chain ?co ?before (initial_state ''j1'' ''hello'') two_pdfs_world = Some (Inr state, wb)"
    and t: "(case run_node ?co SynthesizeAnswer state wb of
               Some (Inl err, w') \<Rightarrow> err = ''connection reset'' | other \<Rightarrow> False)"
    by blast
  from raised_then[OF t] obtain wx where
    f: "run_node ?co SynthesizeAnswer state wb = Some (Inl ''connection reset'', wx)"
    by blast
  have c: "graph_chain = ?before @ SynthesizeAnswer # [GenerateUIBlocks, Finalize]"
    by (simp add: graph_chain_def)
  have g: "graph_error ?co = None" by (simp add: stream_failing_collaborators_def)
  from failed_run_publishes_error_then_done[where co = ?co and err = "''connection reset''"
      and before = ?before and failed = SynthesizeAnswer
      and after = "[GenerateUIBlocks, Finalize]" and jid = "''j1''" and q = "''hello''"
      and w = two_pdfs_world and state = state and wb = wb and wx = wx] g c b f
  obtain res w' where
    "process_chat_job ?co ''j1'' ''hello'' two_pdfs_world = Some (res, w')"
    "emitted w' = emitted wx @ [ErrorEvent ''connection reset'' False, DoneEvent None]"
    by blast
  then show ?thesis
    using c two_pdfs_failed two_pdfs_run by simp
qed

text \<open>Every node of the chain can be the one that fails: a fault before the node's first
  publication ends the job with the error event and Done, whichever node it strikes.\<close>

lemma any_node_can_fail:
  "list_all
     (\<lambda>n. map_option (\<lambda>(res, w). filter (\<lambda>e. is_error_event e \<or> is_done_event e) (emitted w))
            (process_chat_job (faulty_collaborators n 0 ''fault'') ''j1'' ''hello'' two_pdfs_world) =
          Some [ErrorEvent ''fault'' False, DoneEvent None])
     graph_chain"
  by code_simp

text \<open>A cited number of more than 4300 digits ends the synthesis stage with the
  exception of \<open>int\<close>, and so does a section with a page number below 1, with the
  exception of the Citation constructor.\<close>

lemma long_number_fails:
  "length n > max_str_digits \<Longrightarrow> \<exists>err. cite (n # ns) docs = ([], Some err)"
  by (simp add: py_int_def)

lemma invalid_page_fails:
  "cite [''1''] [(''a.pdf'', 0, ''x'')] = ([], Some ''1 validation error for Citation'')"
  by code_simp

section \<open>Properties of the retrieval stage\<close>







































lemma scanned_retrieve: "map_option fst (retrieve ''hello'' scanned_processor) = Some []"
  by code_simp




end
